theory Spec2Isabelle
  imports Main "HOL-Library.Sublist" "HOL-Library.Word"
begin

section \<open>Configuration (config.go)\<close>

text \<open>
  Go strings are byte sequences, so they are modelled as \<open>string\<close> (a list of 8-bit
  characters). A Go \<open>map[string]T\<close> is modelled as an association list (of distinct
  keys, for a map): lookup is \<open>map_of\<close>, \<open>len\<close> is \<open>length\<close>, and the order of the
  list stands for the order in which a \<open>range\<close> over the map yields its entries. Go
  leaves that order unspecified, so every statement below is made for an arbitrary list.
\<close>

record Server =
  Host :: string
  Port :: "16 word"
  User :: string
  Pass :: string

type_synonym Columns = "(string \<times> string) list"

record Table =
  View :: bool
  Materialized :: bool
  Populate :: bool
  Columns :: Columns
  Engine :: string
  AsAnotherTable :: string
  AsSelect :: string

record Database =
  Name :: string
  Tables :: "(string \<times> Table) list"

record Config =
  Servers :: "Server list"
  Databases :: "Database list"

section \<open>Library functions used by the program\<close>

subsection \<open>strings.Join and decimal formatting\<close>

fun Join :: "string list \<Rightarrow> string \<Rightarrow> string" where
  "Join [] sep = []"
| "Join [x] sep = x"
| "Join (x # y # ys) sep = x @ sep @ Join (y # ys) sep"

text \<open>
  The \<open>%d\<close> verb of \<open>fmt.Sprintf\<close> on an unsigned value; \<open>digit\<close> is only
  applied to a number below ten.
\<close>

definition digit :: "nat \<Rightarrow> char" where
  "digit d = ''0123456789'' ! d"

fun itoa :: "nat \<Rightarrow> string" where
  "itoa n = (if n < 10 then [digit n] else itoa (n div 10) @ [digit (n mod 10)])"

declare itoa.simps [simp del]

subsection \<open>strings.Fields\<close>

text \<open>
  \<open>strings.Fields\<close> splits a string around each run of white space as
  \<open>unicode.IsSpace\<close> defines it, reading the bytes as UTF-8 the way a \<open>range\<close> over a
  string does: an invalid or truncated encoding is one byte wide and decodes to
  \<open>RuneError\<close> (U+FFFD), which is not white space.
\<close>

definition RuneError :: nat where
  "RuneError = 0xFFFD"

definition locb :: nat where
  "locb = 0x80"

definition hicb :: nat where
  "hicb = 0xBF"

fun DecodeRune :: "string \<Rightarrow> nat \<times> nat" where
  "DecodeRune [] = (RuneError, 0)"
| "DecodeRune (c0 # p) =
     (let p0 = (of_char c0 :: nat) in
      if p0 < 0x80 then (p0, 1)
      else if p0 < 0xC2 \<or> 0xF4 < p0 then (RuneError, 1)
      else
        let sz = (if p0 < 0xE0 then 2 else if p0 < 0xF0 then 3 else (4::nat));
            lo = (if p0 = 0xE0 then 0xA0 else if p0 = 0xF0 then 0x90 else locb);
            hi = (if p0 = 0xED then 0x9F else if p0 = 0xF4 then 0x8F else hicb)
        in
          if length (c0 # p) < sz then (RuneError, 1)
          else
            let b1 = (of_char (p ! 0) :: nat) in
            if b1 < lo \<or> hi < b1 then (RuneError, 1)
            else if sz \<le> 2 then ((p0 mod 32) * 64 + b1 mod 64, 2)
            else
              let b2 = (of_char (p ! 1) :: nat) in
              if b2 < locb \<or> hicb < b2 then (RuneError, 1)
              else if sz \<le> 3 then ((p0 mod 16) * 4096 + (b1 mod 64) * 64 + b2 mod 64, 3)
              else
                let b3 = (of_char (p ! 2) :: nat) in
                if b3 < locb \<or> hicb < b3 then (RuneError, 1)
                else ((p0 mod 8) * 262144 + (b1 mod 64) * 4096 + (b2 mod 64) * 64
                        + b3 mod 64, 4))"

definition IsSpace :: "nat \<Rightarrow> bool" where
  "IsSpace r =
     (if r \<le> 0xFF then r \<in> {0x09, 0x0A, 0x0B, 0x0C, 0x0D, 0x20, 0x85, 0xA0}
      else r = 0x1680 \<or> (0x2000 \<le> r \<and> r \<le> 0x200A) \<or> r = 0x2028 \<or> r = 0x2029
           \<or> r = 0x202F \<or> r = 0x205F \<or> r = 0x3000)"

text \<open>
  The loop of \<open>strings.FieldsFunc\<close>: \<open>cur\<close> is the field being read (\<open>None\<close> between
  fields); a rune satisfying \<open>f\<close> closes it, any other rune extends it with its bytes,
  and the end of the string closes a field still open.
\<close>

definition flush :: "string option \<Rightarrow> string list" where
  "flush cur = (case cur of None \<Rightarrow> [] | Some fld \<Rightarrow> [fld])"

function FieldsFunc_loop :: "(nat \<Rightarrow> bool) \<Rightarrow> string \<Rightarrow> string option \<Rightarrow> string list" where
  "FieldsFunc_loop f [] cur = flush cur"
| "FieldsFunc_loop f (c # cs) cur =
     (let w = snd (DecodeRune (c # cs)) in
      if f (fst (DecodeRune (c # cs)))
      then flush cur @ FieldsFunc_loop f (drop w (c # cs)) None
      else FieldsFunc_loop f (drop w (c # cs))
             (Some ((case cur of None \<Rightarrow> [] | Some fld \<Rightarrow> fld) @ take w (c # cs))))"
  by pat_completeness auto

termination
proof (relation "measure (\<lambda>(f, s, cur). length s)")
  show "wf (measure (\<lambda>(f, s, cur). length s))" by simp
next
  fix f :: "nat \<Rightarrow> bool" and c cs and cur :: "string option" and w
  assume "w = snd (DecodeRune (c # cs))"
  then have "0 < w" by (simp add: Let_def)
  then show "((f, drop w (c # cs), None), (f, c # cs, cur)) \<in> measure (\<lambda>(f, s, cur). length s)"
    by simp
next
  fix f :: "nat \<Rightarrow> bool" and c cs and cur :: "string option" and w
  assume "w = snd (DecodeRune (c # cs))"
  then have "0 < w" by (simp add: Let_def)
  then show "((f, drop w (c # cs),
               Some ((case cur of None \<Rightarrow> [] | Some fld \<Rightarrow> fld) @ take w (c # cs))),
              (f, c # cs, cur)) \<in> measure (\<lambda>(f, s, cur). length s)"
    by simp
qed

definition FieldsFunc :: "string \<Rightarrow> (nat \<Rightarrow> bool) \<Rightarrow> string list" where
  "FieldsFunc s f = FieldsFunc_loop f s None"

definition Fields :: "string \<Rightarrow> string list" where
  "Fields s = FieldsFunc s IsSpace"

section \<open>The outside world\<close>

text \<open>
  A Go \<open>error\<close> is modelled by its message, \<open>nil\<close> by \<open>None\<close>. A \<open>*sql.DB\<close> is an
  opaque handle. What the database servers answer is not decided by the program: it is
  a parameter \<open>w\<close>, asked at a time \<open>t\<close> (the number of events the calling thread
  produced before the call), so the same call may be answered differently later in a run.
\<close>

datatype DB = DB nat

text \<open>
  A \<open>*sql.Rows\<close>: \<open>Err\<close> is what \<open>Rows.Err()\<close> returns before the first call of
  \<open>Next\<close>; \<open>scanned\<close> lists, for each call of \<open>Next\<close> that returns true, the two
  values \<open>Scan\<close> leaves in \<open>columnName\<close> and \<open>columnType\<close>.
\<close>

record sql_Rows =
  Err :: "string option"
  scanned :: "(string \<times> string) list"

record QueryResult =
  Rows :: "sql_Rows option"
  error :: "string option"

text \<open>The \<open>sql.Result\<close> embedded in an \<open>ExecResult\<close> is never read; only its error is kept.\<close>

record ExecResult =
  exec_error :: "string option"

record world =
  sql_Open :: "nat \<Rightarrow> string \<Rightarrow> string \<Rightarrow> string + DB"
  db_Ping :: "nat \<Rightarrow> DB \<Rightarrow> string option"
  db_Close :: "nat \<Rightarrow> DB \<Rightarrow> string option"
  db_Exec :: "nat \<Rightarrow> DB \<Rightarrow> string \<Rightarrow> string list \<Rightarrow> string option"
  db_Query :: "nat \<Rightarrow> DB \<Rightarrow> string \<Rightarrow> string list \<Rightarrow> QueryResult"

section \<open>Effects of the program\<close>

datatype panic =
  IndexOutOfRange nat nat
| NilDereference
| PanicError string
| PanicExecResults "ExecResult list"

datatype level = DebugLevel | InfoLevel | ErrorLevel

type_synonym log_Fields = "(string \<times> string) list"

text \<open>
  The function call of a \<open>go\<close> statement, with its arguments as evaluated there.
  An event of a call into the database library records the call and its answer. A
  \<open>Log\<close> event is a call of the logger at the given level, with the fields of the
  entry; whether the line is printed depends on the level \<open>SetupLogger\<close> has set.
\<close>

datatype call =
  CreateTable_call nat string Table
| CreateView_call nat string Table
| ModifyColumn_call nat string string string
| AddColumn_call nat string string string
| DropColumn_call nat string string

datatype event =
  Log level log_Fields string
| Go call
| Open_call string "string + DB"
| Ping_call DB "string option"
| Close_call DB "string option"
| Exec_call DB string "string option"
| Query_call DB string "string list" QueryResult
| Rows_Close_call DB

text \<open>logrus: \<open>WithField\<close> returns the entry's fields with one key set.\<close>

fun WithField :: "string \<Rightarrow> string \<Rightarrow> log_Fields \<Rightarrow> log_Fields" where
  "WithField k v [] = [(k, v)]"
| "WithField k v ((k', v') # l) = (if k' = k then (k, v) # l else (k', v') # WithField k v l)"

fun WithFields :: "log_Fields \<Rightarrow> log_Fields \<Rightarrow> log_Fields" where
  "WithFields [] l = l"
| "WithFields ((k, v) # kvs) l = WithFields kvs (WithField k v l)"

definition WithError :: "string \<Rightarrow> log_Fields \<Rightarrow> log_Fields" where
  "WithError err l = WithField ''error'' err l"

definition newline :: string where
  "newline = [CHR 0x0A]"

section \<open>The synchronizer\<close>

record Synchronizer =
  config :: Config
  connections :: "DB list"
  database :: string
  fix' :: bool
  dropColumns :: bool
  debug :: bool

definition NewSynchronizer :: "Config \<Rightarrow> Synchronizer" where
  "NewSynchronizer cfg =
     \<lparr>config = cfg, connections = [], database = [], fix' = False, dropColumns = False,
      debug = False\<rparr>"

definition SetFix :: "Synchronizer \<Rightarrow> bool \<Rightarrow> Synchronizer" where
  "SetFix sync b = sync\<lparr>fix' := b\<rparr>"

definition SetDropColumns :: "Synchronizer \<Rightarrow> bool \<Rightarrow> Synchronizer" where
  "SetDropColumns sync b = sync\<lparr>dropColumns := b\<rparr>"

definition SetupLogger :: "Synchronizer \<Rightarrow> bool \<Rightarrow> Synchronizer" where
  "SetupLogger sync b = sync\<lparr>debug := b\<rparr>"

subsection \<open>Connect and Close\<close>

definition dsn_of :: "Synchronizer \<Rightarrow> Server \<Rightarrow> string" where
  "dsn_of sync server =
     ''tcp://'' @ Host server @ '':'' @ itoa (unat (Port server)) @ ''?username='' @ User server
       @ ''&password='' @ Pass server @ ''&debug='' @ itoa (if debug sync then 0 else 0)"

text \<open>
  The loop of \<open>Connect\<close>: the events, the collected errors and the opened connections,
  each in the order of the servers.
\<close>

fun Connect_loop ::
  "world \<Rightarrow> Synchronizer \<Rightarrow> nat \<Rightarrow> Server list \<Rightarrow> event list \<times> string list \<times> DB list" where
  "Connect_loop w sync t [] = ([], [], [])"
| "Connect_loop w sync t (server # servers) =
     (let dsn = dsn_of sync server in
      case sql_Open w t ''clickhouse'' dsn of
        Inl err \<Rightarrow>
          (case Connect_loop w sync (t + 1) servers of
             (evs, errs, conns) \<Rightarrow> (Open_call dsn (Inl err) # evs, err # errs, conns))
      | Inr conn \<Rightarrow>
          (case db_Ping w (t + 1) conn of
             Some err \<Rightarrow>
               (case Connect_loop w sync (t + 2) servers of
                  (evs, errs, conns) \<Rightarrow>
                    (Open_call dsn (Inr conn) # Ping_call conn (Some err) # evs, err # errs,
                     conns))
           | None \<Rightarrow>
               (case Connect_loop w sync (t + 2) servers of
                  (evs, errs, conns) \<Rightarrow>
                    (Open_call dsn (Inr conn) # Ping_call conn None # evs, errs,
                     conn # conns))))"

definition errors_text :: "string list \<Rightarrow> string option" where
  "errors_text errs =
     (if length errs = 0 then None else Some (concat (map (\<lambda>err. err @ newline) errs)))"

definition Connect ::
  "world \<Rightarrow> Synchronizer \<Rightarrow> nat \<Rightarrow> event list \<times> Synchronizer \<times> string option" where
  "Connect w sync t =
     (case Connect_loop w sync t (Servers (config sync)) of
        (evs, errs, conns) \<Rightarrow> (evs, sync\<lparr>connections := conns\<rparr>, errors_text errs))"

fun Close_loop :: "world \<Rightarrow> nat \<Rightarrow> DB list \<Rightarrow> event list \<times> string list" where
  "Close_loop w t [] = ([], [])"
| "Close_loop w t (conn # conns) =
     (case Close_loop w (t + 1) conns of
        (evs, errs) \<Rightarrow>
          (Close_call conn (db_Close w t conn) # evs,
           (case db_Close w t conn of Some err \<Rightarrow> err # errs | None \<Rightarrow> errs)))"

definition Close :: "world \<Rightarrow> Synchronizer \<Rightarrow> nat \<Rightarrow> event list \<times> string option" where
  "Close w sync t =
     (case Close_loop w t (connections sync) of (evs, errs) \<Rightarrow> (evs, errors_text errs))"

subsection \<open>Exec, Query and their results\<close>

fun ExecResults_HasError :: "ExecResult list \<Rightarrow> bool" where
  "ExecResults_HasError [] = False"
| "ExecResults_HasError (r # e) = (if exec_error r \<noteq> None then True else ExecResults_HasError e)"

fun QueryResults_HasError :: "QueryResult list \<Rightarrow> bool" where
  "QueryResults_HasError [] = False"
| "QueryResults_HasError (r # e) =
     (case Rows r of
        None \<Rightarrow> QueryResults_HasError e
      | Some rows \<Rightarrow> (if Err rows \<noteq> None then True else QueryResults_HasError e))"

text \<open>
  \<open>QueryResults.Error\<close> calls the \<open>Error\<close> method of the embedded \<open>error\<close> of each
  result whose rows report an error; on a nil embedded error that call is a nil
  dereference.
\<close>

fun QueryResults_Error :: "QueryResult list \<Rightarrow> panic + string" where
  "QueryResults_Error [] = Inr []"
| "QueryResults_Error (r # e) =
     (case Rows r of
        None \<Rightarrow> QueryResults_Error e
      | Some rows \<Rightarrow>
          (if Err rows \<noteq> None then
             (case error r of
                None \<Rightarrow> Inl NilDereference
              | Some msg \<Rightarrow>
                  (case QueryResults_Error e of
                     Inl p \<Rightarrow> Inl p
                   | Inr text \<Rightarrow> Inr (msg @ newline @ text)))
           else QueryResults_Error e))"

fun QueryResults_Close :: "DB list \<Rightarrow> QueryResult list \<Rightarrow> event list" where
  "QueryResults_Close (conn # conns) (r # e) =
     (case Rows r of
        None \<Rightarrow> QueryResults_Close conns e
      | Some rows \<Rightarrow> Rows_Close_call conn # QueryResults_Close conns e)"
| "QueryResults_Close conns e = []"

fun Exec_loop ::
  "world \<Rightarrow> nat \<Rightarrow> string \<Rightarrow> string list \<Rightarrow> DB list \<Rightarrow> event list \<times> ExecResult list" where
  "Exec_loop w t query args [] = ([], [])"
| "Exec_loop w t query args (conn # conns) =
     (case Exec_loop w (t + 1) query args conns of
        (evs, results) \<Rightarrow>
          (Exec_call conn query (db_Exec w t conn query args) # evs,
           \<lparr>exec_error = db_Exec w t conn query args\<rparr> # results))"

definition Exec ::
  "world \<Rightarrow> Synchronizer \<Rightarrow> nat \<Rightarrow> string \<Rightarrow> string list \<Rightarrow> event list \<times> ExecResult list" where
  "Exec w sync t query args = Exec_loop w t query args (connections sync)"

fun Query_loop ::
  "world \<Rightarrow> nat \<Rightarrow> string \<Rightarrow> string list \<Rightarrow> DB list \<Rightarrow> event list \<times> QueryResult list" where
  "Query_loop w t query args [] = ([], [])"
| "Query_loop w t query args (conn # conns) =
     (case Query_loop w (t + 1) query args conns of
        (evs, results) \<Rightarrow>
          (Query_call conn query args (db_Query w t conn query args) # evs,
           db_Query w t conn query args # results))"

definition Query ::
  "world \<Rightarrow> Synchronizer \<Rightarrow> nat \<Rightarrow> string \<Rightarrow> string list \<Rightarrow> event list \<times> QueryResult list" where
  "Query w sync t query args = Query_loop w t query args (connections sync)"

subsection \<open>Corrective operations\<close>

text \<open>
  Each takes the time \<open>t\<close> at which it runs its statement. Indexing \<open>connections\<close> or
  \<open>Servers\<close> out of range panics.
\<close>

definition exec_and_log ::
  "world \<Rightarrow> nat \<Rightarrow> DB \<Rightarrow> log_Fields \<Rightarrow> string \<Rightarrow> string \<Rightarrow> string \<Rightarrow> event list" where
  "exec_and_log w t conn l stmt failed succeeded =
     [Log DebugLevel l stmt, Exec_call conn stmt (db_Exec w t conn stmt []),
      (case db_Exec w t conn stmt [] of
         Some err \<Rightarrow> Log ErrorLevel (WithError err l) failed
       | None \<Rightarrow> Log InfoLevel l succeeded)]"

definition columns_sql :: "Columns \<Rightarrow> string" where
  "columns_sql cols =
     ''('' @ Join (map (\<lambda>(columnName, columnType). columnName @ '' '' @ columnType) cols) '', ''
       @ '') ''"

definition CreateTable_sql :: "string \<Rightarrow> Table \<Rightarrow> string" where
  "CreateTable_sql name table =
     ''CREATE TABLE IF NOT EXISTS '' @ name @ '' ''
       @ (if length (Columns table) \<noteq> 0 then columns_sql (Columns table)
          else if AsAnotherTable table \<noteq> [] then ''AS '' @ AsAnotherTable table @ '' ''
          else [])
       @ ''ENGINE = '' @ Engine table"

definition CreateTable ::
  "world \<Rightarrow> Synchronizer \<Rightarrow> nat \<Rightarrow> nat \<Rightarrow> string \<Rightarrow> Table \<Rightarrow> event list \<times> panic option" where
  "CreateTable w sync t i name table =
     (if \<not> i < length (connections sync)
      then ([], Some (IndexOutOfRange i (length (connections sync))))
      else if \<not> i < length (Servers (config sync))
      then ([], Some (IndexOutOfRange i (length (Servers (config sync)))))
      else
        let conn = connections sync ! i;
            l = WithFields [(''host'', Host (Servers (config sync) ! i)),
                            (''database'', database sync), (''table'', name)] []
        in (exec_and_log w t conn l (CreateTable_sql name table)
              ''Failed to create table'' ''Created table'', None))"

definition CreateView_sql :: "string \<Rightarrow> Table \<Rightarrow> string" where
  "CreateView_sql name view =
     (if Materialized view then ''CREATE MATERIALIZED VIEW IF NOT EXISTS ''
      else ''CREATE VIEW IF NOT EXISTS '')
       @ name @ '' ''
       @ (if length (Columns view) \<noteq> 0 then columns_sql (Columns view) else [])
       @ (if Engine view \<noteq> [] then ''ENGINE = '' @ Engine view @ '' '' else [])
       @ (if Populate view then ''POPULATE '' else [])
       @ ''AS '' @ AsSelect view"

definition CreateView ::
  "world \<Rightarrow> Synchronizer \<Rightarrow> nat \<Rightarrow> nat \<Rightarrow> string \<Rightarrow> Table \<Rightarrow> event list \<times> panic option" where
  "CreateView w sync t i name view =
     (if \<not> i < length (connections sync)
      then ([], Some (IndexOutOfRange i (length (connections sync))))
      else if \<not> i < length (Servers (config sync))
      then ([], Some (IndexOutOfRange i (length (Servers (config sync)))))
      else
        let conn = connections sync ! i;
            l = WithFields [(''host'', Host (Servers (config sync) ! i)),
                            (''database'', database sync), (''view'', name)] []
        in if AsSelect view = [] then ([Log ErrorLevel l ''as_select is not defined''], None)
           else (exec_and_log w t conn l (CreateView_sql name view)
                   ''Failed to create view'' ''Created view'', None))"

definition ModifyColumn_sql :: "string \<Rightarrow> string \<Rightarrow> string \<Rightarrow> string" where
  "ModifyColumn_sql name columnName columnType =
     ''ALTER TABLE '' @ name @ '' MODIFY COLUMN '' @ columnName @ '' '' @ columnType"

definition ModifyColumn ::
  "world \<Rightarrow> Synchronizer \<Rightarrow> nat \<Rightarrow> nat \<Rightarrow> string \<Rightarrow> string \<Rightarrow> string
     \<Rightarrow> event list \<times> panic option" where
  "ModifyColumn w sync t i name columnName columnType =
     (if \<not> i < length (connections sync)
      then ([], Some (IndexOutOfRange i (length (connections sync))))
      else if \<not> i < length (Servers (config sync))
      then ([], Some (IndexOutOfRange i (length (Servers (config sync)))))
      else
        let conn = connections sync ! i;
            l = WithFields [(''host'', Host (Servers (config sync) ! i)),
                            (''database'', database sync), (''view'', name),
                            (''column'', columnName), (''type'', columnType)] []
        in (exec_and_log w t conn l (ModifyColumn_sql name columnName columnType)
              ''Failed to modify column type'' ''Modified column type'', None))"

definition AddColumn_sql :: "string \<Rightarrow> string \<Rightarrow> string \<Rightarrow> string" where
  "AddColumn_sql name columnName columnType =
     ''ALTER TABLE '' @ name @ '' ADD COLUMN '' @ columnName @ '' '' @ columnType"

definition AddColumn ::
  "world \<Rightarrow> Synchronizer \<Rightarrow> nat \<Rightarrow> nat \<Rightarrow> string \<Rightarrow> string \<Rightarrow> string
     \<Rightarrow> event list \<times> panic option" where
  "AddColumn w sync t i name columnName columnType =
     (if \<not> i < length (connections sync)
      then ([], Some (IndexOutOfRange i (length (connections sync))))
      else if \<not> i < length (Servers (config sync))
      then ([], Some (IndexOutOfRange i (length (Servers (config sync)))))
      else
        let conn = connections sync ! i;
            l = WithFields [(''host'', Host (Servers (config sync) ! i)),
                            (''database'', database sync), (''view'', name),
                            (''column'', columnName), (''type'', columnType)] []
        in (exec_and_log w t conn l (AddColumn_sql name columnName columnType)
              ''Failed to add column'' ''Added column'', None))"

definition DropColumn_sql :: "string \<Rightarrow> string \<Rightarrow> string" where
  "DropColumn_sql name columnName = ''ALTER TABLE '' @ name @ '' DROP COLUMN '' @ columnName"

definition DropColumn ::
  "world \<Rightarrow> Synchronizer \<Rightarrow> nat \<Rightarrow> nat \<Rightarrow> string \<Rightarrow> string \<Rightarrow> event list \<times> panic option" where
  "DropColumn w sync t i name columnName =
     (if \<not> i < length (connections sync)
      then ([], Some (IndexOutOfRange i (length (connections sync))))
      else if \<not> i < length (Servers (config sync))
      then ([], Some (IndexOutOfRange i (length (Servers (config sync)))))
      else
        let conn = connections sync ! i;
            l = WithFields [(''host'', Host (Servers (config sync) ! i)),
                            (''database'', database sync), (''view'', name),
                            (''column'', columnName)] []
        in (exec_and_log w t conn l (DropColumn_sql name columnName)
              ''Failed to drop column'' ''Dropped column'', None))"

text \<open>What a goroutine started by \<open>go f(args)\<close> does when it runs at time \<open>t\<close>.\<close>

fun run_call :: "world \<Rightarrow> Synchronizer \<Rightarrow> nat \<Rightarrow> call \<Rightarrow> event list \<times> panic option" where
  "run_call w sync t (CreateTable_call i name table) = CreateTable w sync t i name table"
| "run_call w sync t (CreateView_call i name view) = CreateView w sync t i name view"
| "run_call w sync t (ModifyColumn_call i name columnName columnType) =
     ModifyColumn w sync t i name columnName columnType"
| "run_call w sync t (AddColumn_call i name columnName columnType) =
     AddColumn w sync t i name columnName columnType"
| "run_call w sync t (DropColumn_call i name columnName) = DropColumn w sync t i name columnName"

subsection \<open>CheckTable\<close>

text \<open>
  The inner loop of \<open>CheckTable\<close> over the rows of one replica (lines 364 to 398):
  the events it produces and the panic that stops it, if any.
\<close>

fun rows_loop ::
  "Synchronizer \<Rightarrow> string \<Rightarrow> Table \<Rightarrow> log_Fields \<Rightarrow> nat \<Rightarrow> (string \<times> string) list
     \<Rightarrow> event list \<times> panic option" where
  "rows_loop sync name table l i [] = ([], None)"
| "rows_loop sync name table l i ((columnName, columnType) # rows) =
     (if length (Columns table) = 0 then rows_loop sync name table l i rows
      else
        case map_of (Columns table) columnName of
          None \<Rightarrow>
            (case rows_loop sync name table l i rows of
               (evs, p) \<Rightarrow>
                 (Log ErrorLevel (WithField ''column'' columnName l) ''Table has excess column''
                    # (if fix' sync \<and> dropColumns sync
                       then [Go (DropColumn_call i name columnName)] else [])
                    @ evs, p))
        | Some needType \<Rightarrow>
            (case Fields needType of
               [] \<Rightarrow> ([], Some (IndexOutOfRange 0 0))
             | needType' # rest \<Rightarrow>
                 if needType' \<noteq> columnType then
                   (case rows_loop sync name table l i rows of
                      (evs, p) \<Rightarrow>
                        (Log ErrorLevel
                           (WithFields [(''column'', columnName), (''need type'', needType'),
                                        (''has type'', columnType)] l)
                           ''Column type mismatch''
                           # (if fix' sync
                              then [Go (ModifyColumn_call i name columnName needType')] else [])
                           @ evs, p))
                 else rows_loop sync name table l i rows))"

text \<open>The last loop of \<open>CheckTable\<close>, over the desired columns (lines 414 to 424).\<close>

fun missing_loop ::
  "Synchronizer \<Rightarrow> string \<Rightarrow> log_Fields \<Rightarrow> nat \<Rightarrow> string list \<Rightarrow> Columns \<Rightarrow> event list" where
  "missing_loop sync name l i existColumns [] = []"
| "missing_loop sync name l i existColumns ((columnName, needType) # cols) =
     (if columnName \<in> set existColumns then missing_loop sync name l i existColumns cols
      else
        Log ErrorLevel (WithField ''column'' columnName l) ''Table has not enough columns''
          # (if fix' sync then [Go (AddColumn_call i name columnName needType)] else [])
          @ missing_loop sync name l i existColumns cols)"

text \<open>
  The rows that the inner loop reads from one result: none when \<open>Rows\<close> is nil.
  \<open>exists\<close> is set by the first row, and \<open>existColumns\<close> holds the names of the rows read.
\<close>

definition live :: "QueryResult \<Rightarrow> (string \<times> string) list" where
  "live e = (case Rows e of None \<Rightarrow> [] | Some rows \<Rightarrow> scanned rows)"

text \<open>One iteration of the outer loop of \<open>CheckTable\<close>, after \<open>host\<close> is set in \<open>l\<close>.\<close>

definition check_replica ::
  "Synchronizer \<Rightarrow> string \<Rightarrow> Table \<Rightarrow> log_Fields \<Rightarrow> nat \<Rightarrow> QueryResult
     \<Rightarrow> event list \<times> panic option" where
  "check_replica sync name table l i e =
     (case rows_loop sync name table l i (live e) of
        (evs, Some p) \<Rightarrow> (evs, Some p)
      | (evs, None) \<Rightarrow>
          if live e = [] then
            (evs @ Log ErrorLevel l ''Table does not exist''
               # (if fix' sync
                  then (if View table then [Go (CreateView_call i name table)]
                        else [Go (CreateTable_call i name table)])
                  else []), None)
          else (evs @ missing_loop sync name l i (map fst (live e)) (Columns table), None))"

fun replicas_loop ::
  "Synchronizer \<Rightarrow> string \<Rightarrow> Table \<Rightarrow> log_Fields \<Rightarrow> nat \<Rightarrow> QueryResult list
     \<Rightarrow> event list \<times> panic option" where
  "replicas_loop sync name table l i [] = ([], None)"
| "replicas_loop sync name table l i (e # r) =
     (if \<not> i < length (Servers (config sync))
      then ([], Some (IndexOutOfRange i (length (Servers (config sync)))))
      else
        let l' = WithField ''host'' (Host (Servers (config sync) ! i)) l in
        case check_replica sync name table l' i e of
          (evs, Some p) \<Rightarrow> (evs, Some p)
        | (evs, None) \<Rightarrow>
            (case replicas_loop sync name table l' (i + 1) r of
               (evs', p) \<Rightarrow> (evs @ evs', p)))"

text \<open>
  \<open>CheckTable\<close> after its query returned \<open>r\<close>. The deferred \<open>r.Close()\<close> is registered
  after the error check, and runs whether the loop ends or panics.
\<close>

definition check_results ::
  "Synchronizer \<Rightarrow> string \<Rightarrow> Table \<Rightarrow> QueryResult list \<Rightarrow> event list \<times> panic option" where
  "check_results sync name table r =
     (let l = WithFields [(''database'', database sync), (''table'', name)] [] in
      case (if QueryResults_HasError r
            then (case QueryResults_Error r of
                    Inl p \<Rightarrow> Inl p
                  | Inr text \<Rightarrow> Inr [Log ErrorLevel l text])
            else Inr []) of
        Inl p \<Rightarrow> ([], Some p)
      | Inr evs \<Rightarrow>
          (case replicas_loop sync name table l 0 r of
             (evs', p) \<Rightarrow> (evs @ evs' @ QueryResults_Close (connections sync) r, p)))"

definition columns_query :: string where
  "columns_query = ''SELECT name, type FROM system.columns WHERE database = ? AND table = ?''"

definition CheckTable ::
  "world \<Rightarrow> Synchronizer \<Rightarrow> nat \<Rightarrow> string \<Rightarrow> Table \<Rightarrow> event list \<times> panic option" where
  "CheckTable w sync t name table =
     (case Query w sync t columns_query [database sync, name] of
        (evs, r) \<Rightarrow>
          (case check_results sync name table r of (evs', p) \<Rightarrow> (evs @ evs', p)))"

subsection \<open>CheckDatabase, Check and main\<close>

fun tables_loop ::
  "world \<Rightarrow> Synchronizer \<Rightarrow> nat \<Rightarrow> (string \<times> Table) list \<Rightarrow> event list \<times> panic option" where
  "tables_loop w sync t [] = ([], None)"
| "tables_loop w sync t ((name, table) # tables) =
     (case CheckTable w sync t name table of
        (evs, Some p) \<Rightarrow> (evs, Some p)
      | (evs, None) \<Rightarrow>
          (case tables_loop w sync (t + length evs) tables of
             (evs', p) \<Rightarrow> (evs @ evs', p)))"

definition CheckDatabase ::
  "world \<Rightarrow> Synchronizer \<Rightarrow> nat \<Rightarrow> Database \<Rightarrow> event list \<times> Synchronizer \<times> panic option" where
  "CheckDatabase w sync t db =
     (case Exec w sync t (''USE '' @ Name db) [] of
        (evs, r) \<Rightarrow>
          if ExecResults_HasError r then (evs, sync, Some (PanicExecResults r))
          else
            let sync' = sync\<lparr>database := Name db\<rparr> in
            case tables_loop w sync' (t + length evs) (Tables db) of
              (evs', p) \<Rightarrow> (evs @ evs', sync', p))"

fun Check_loop ::
  "world \<Rightarrow> Synchronizer \<Rightarrow> nat \<Rightarrow> Database list \<Rightarrow> event list \<times> Synchronizer \<times> panic option" where
  "Check_loop w sync t [] = ([], sync, None)"
| "Check_loop w sync t (db # dbs) =
     (case CheckDatabase w sync t db of
        (evs, sync', Some p) \<Rightarrow> (evs, sync', Some p)
      | (evs, sync', None) \<Rightarrow>
          (case Check_loop w sync' (t + length evs) dbs of
             (evs', sync'', p) \<Rightarrow> (evs @ evs', sync'', p)))"

definition Check ::
  "world \<Rightarrow> Synchronizer \<Rightarrow> nat \<Rightarrow> event list \<times> Synchronizer \<times> panic option" where
  "Check w sync t = Check_loop w sync t (Databases (config sync))"

text \<open>
  \<open>main\<close>, from the parsed configuration and the three flags: the events of the main
  thread and the panic that ended it, if any. A goroutine started by a \<open>go\<close>
  statement appears as its \<open>Go\<close> event only; what it does when it runs is
  \<open>run_call\<close>, and the main thread never reads its outcome.
\<close>

definition main :: "world \<Rightarrow> Config \<Rightarrow> bool \<Rightarrow> bool \<Rightarrow> bool \<Rightarrow> event list \<times> panic option" where
  "main w cfg sync_flag dropColumns_flag debug_flag =
     (let synchronizer = NewSynchronizer cfg;
          synchronizer = SetFix synchronizer sync_flag;
          synchronizer = SetDropColumns synchronizer dropColumns_flag;
          synchronizer = SetupLogger synchronizer debug_flag
      in case Connect w synchronizer 0 of
           (evs, synchronizer, Some err) \<Rightarrow> (evs, Some (PanicError err))
         | (evs, synchronizer, None) \<Rightarrow>
             (case Check w synchronizer (length evs) of
                (evs', synchronizer, Some p) \<Rightarrow> (evs @ evs', Some p)
              | (evs', synchronizer, None) \<Rightarrow>
                  (case Close w synchronizer (length evs + length evs') of
                     (evs'', Some err) \<Rightarrow> (evs @ evs' @ evs'', Some (PanicError err))
                   | (evs'', None) \<Rightarrow> (evs @ evs' @ evs'', None))))"

section \<open>Reading divergences and statements off the events\<close>

text \<open>
  The program reports a divergence as an error line of the log; the four messages of
  \<open>CheckTable\<close> are the four kinds.
\<close>

datatype divergence =
  ObjectMissing
| ColumnExcess string
| TypeMismatch string string string
| ColumnMissing string

definition field :: "log_Fields \<Rightarrow> string \<Rightarrow> string" where
  "field l k = (case map_of l k of None \<Rightarrow> [] | Some v \<Rightarrow> v)"

definition divergence_of :: "event \<Rightarrow> divergence option" where
  "divergence_of ev =
     (case ev of
        Log lvl l msg \<Rightarrow>
          (if lvl \<noteq> ErrorLevel then None
           else if msg = ''Table does not exist'' then Some ObjectMissing
           else if msg = ''Table has excess column'' then Some (ColumnExcess (field l ''column''))
           else if msg = ''Column type mismatch''
             then Some (TypeMismatch (field l ''column'') (field l ''need type'')
                          (field l ''has type''))
           else if msg = ''Table has not enough columns''
             then Some (ColumnMissing (field l ''column''))
           else None)
      | _ \<Rightarrow> None)"

definition divergences :: "event list \<Rightarrow> divergence list" where
  "divergences evs = List.map_filter divergence_of evs"

fun go_of :: "event \<Rightarrow> call option" where
  "go_of (Go c) = Some c"
| "go_of ev = None"

definition spawned :: "event list \<Rightarrow> call list" where
  "spawned evs = List.map_filter go_of evs"

fun stmt_of :: "event \<Rightarrow> string option" where
  "stmt_of (Exec_call conn stmt res) = Some stmt"
| "stmt_of ev = None"

definition statements :: "event list \<Rightarrow> string list" where
  "statements evs = List.map_filter stmt_of evs"

subsection \<open>Kinds of divergence\<close>

fun is_row_divergence :: "divergence \<Rightarrow> bool" where
  "is_row_divergence (ColumnExcess c) = True"
| "is_row_divergence (TypeMismatch c n h) = True"
| "is_row_divergence d = False"

fun is_missing :: "divergence \<Rightarrow> bool" where
  "is_missing (ColumnMissing c) = True"
| "is_missing d = False"

fun divergence_column :: "divergence \<Rightarrow> string" where
  "divergence_column ObjectMissing = []"
| "divergence_column (ColumnExcess c) = c"
| "divergence_column (TypeMismatch c n h) = c"
| "divergence_column (ColumnMissing c) = c"

text \<open>
  The three groups of an ordering "excess, then mismatch, then missing": a list of
  divergences is in that order when its ranks are sorted.
\<close>

fun group_rank :: "divergence \<Rightarrow> nat" where
  "group_rank (ColumnExcess c) = 0"
| "group_rank (TypeMismatch c n h) = 1"
| "group_rank (ColumnMissing c) = 2"
| "group_rank ObjectMissing = 0"

text \<open>
  The two groups of an ordering "divergences of live rows, then missing columns".
\<close>

fun row_rank :: "divergence \<Rightarrow> nat" where
  "row_rank (ColumnMissing c) = 1"
| "row_rank d = 0"

fun excess_column :: "divergence \<Rightarrow> string option" where
  "excess_column (ColumnExcess c) = Some c"
| "excess_column d = None"

fun is_drop :: "call \<Rightarrow> bool" where
  "is_drop (DropColumn_call i name c) = True"
| "is_drop c = False"

fun is_modify :: "call \<Rightarrow> bool" where
  "is_modify (ModifyColumn_call i name c ty) = True"
| "is_modify c = False"

text \<open>The call that a logged type mismatch is answered with when fixes are applied.\<close>

fun modify_for :: "nat \<Rightarrow> string \<Rightarrow> divergence \<Rightarrow> call option" where
  "modify_for i name (TypeMismatch c n h) = Some (ModifyColumn_call i name c n)"
| "modify_for i name d = None"

text \<open>
  A logged type mismatch names a column of the desired mapping, and its needed type is
  the first field of the type configured for that column.
\<close>

fun first_token_of_config :: "Table \<Rightarrow> divergence \<Rightarrow> bool" where
  "first_token_of_config table (TypeMismatch c n h) =
     (case map_of (Columns table) c of
        None \<Rightarrow> False
      | Some needType \<Rightarrow> (case Fields needType of [] \<Rightarrow> False | x # rest \<Rightarrow> x = n))"
| "first_token_of_config table d = True"

subsection \<open>Agreement of a live column sequence with the desired columns\<close>

text \<open>
  The live rows and the desired mapping have the same column names, and the type of
  each live row is the first field of the desired type of its column.
\<close>

definition row_agrees :: "Table \<Rightarrow> string \<times> string \<Rightarrow> bool" where
  "row_agrees table row =
     (case map_of (Columns table) (fst row) of
        None \<Rightarrow> False
      | Some needType \<Rightarrow> (case Fields needType of [] \<Rightarrow> False | x # rest \<Rightarrow> x = snd row))"

definition same_columns :: "Table \<Rightarrow> QueryResult \<Rightarrow> bool" where
  "same_columns table e =
     (set (map fst (live e)) = set (map fst (Columns table)) \<and> list_all (row_agrees table) (live e))"

subsection \<open>White space\<close>

text \<open>The runes of a string, decoded as \<open>strings.Fields\<close> reads them.\<close>

function runes :: "string \<Rightarrow> nat list" where
  "runes [] = []"
| "runes (c # cs) = fst (DecodeRune (c # cs)) # runes (drop (snd (DecodeRune (c # cs))) (c # cs))"
  by pat_completeness auto

termination
proof (relation "measure length")
  show "wf (measure length)" by simp
next
  fix c cs
  have "0 < snd (DecodeRune (c # cs))" by (simp add: Let_def)
  then show "(drop (snd (DecodeRune (c # cs))) (c # cs), c # cs) \<in> measure length"
    by simp
qed

definition only_white_space :: "string \<Rightarrow> bool" where
  "only_white_space s = list_all IsSpace (runes s)"

subsection \<open>Reading the outcome of Connect off its events\<close>

fun opened_dsn :: "event \<Rightarrow> string option" where
  "opened_dsn (Open_call dsn res) = Some dsn"
| "opened_dsn ev = None"

fun pinged_ok :: "event \<Rightarrow> DB option" where
  "pinged_ok (Ping_call conn None) = Some conn"
| "pinged_ok ev = None"

fun opened :: "event \<Rightarrow> DB option" where
  "opened (Open_call dsn (Inr conn)) = Some conn"
| "opened ev = None"

fun pinged :: "event \<Rightarrow> DB option" where
  "pinged (Ping_call conn res) = Some conn"
| "pinged ev = None"

fun failure :: "event \<Rightarrow> string option" where
  "failure (Open_call dsn (Inl err)) = Some err"
| "failure (Ping_call conn (Some err)) = Some err"
| "failure ev = None"

subsection \<open>Runs\<close>

text \<open>The synchronizer as \<open>main\<close> sets it up before it connects.\<close>

definition startup :: "Config \<Rightarrow> bool \<Rightarrow> bool \<Rightarrow> bool \<Rightarrow> Synchronizer" where
  "startup cfg sync_flag dropColumns_flag debug_flag =
     SetupLogger (SetDropColumns (SetFix (NewSynchronizer cfg) sync_flag) dropColumns_flag)
       debug_flag"

text \<open>
  An event that is neither a \<open>go\<close> statement nor a statement other than the
  \<open>USE\<close> of a configured database.
\<close>

fun harmless :: "Database list \<Rightarrow> event \<Rightarrow> bool" where
  "harmless dbs (Go c) = False"
| "harmless dbs (Exec_call conn stmt res) = (stmt \<in> (\<lambda>db. ''USE '' @ Name db) ` set dbs)"
| "harmless dbs ev = True"

subsection \<open>Concrete inputs\<close>

definition example_server :: Server where
  "example_server = \<lparr>Host = ''h1'', Port = 9000, User = ''default'', Pass = []\<rparr>"

definition example_table :: Table where
  "example_table =
     \<lparr>View = False, Materialized = False, Populate = False,
      Columns = [(''a'', ''UInt8 DEFAULT 0'')], Engine = ''Log'', AsAnotherTable = [],
      AsSelect = []\<rparr>"

definition example_config :: Config where
  "example_config =
     \<lparr>Servers = [example_server],
      Databases = [\<lparr>Name = ''db'', Tables = [(''t'', example_table)]\<rparr>]\<rparr>"

definition example_sync :: Synchronizer where
  "example_sync =
     \<lparr>config = example_config, connections = [DB 0], database = ''db'', fix' = True,
      dropColumns = True, debug = False\<rparr>"

definition rows_result :: "(string \<times> string) list \<Rightarrow> QueryResult" where
  "rows_result rows = \<lparr>Rows = Some \<lparr>Err = None, scanned = rows\<rparr>, error = None\<rparr>"

text \<open>A world in which every call succeeds and the catalog answers with the given rows.\<close>

definition example_world :: "(string \<times> string) list \<Rightarrow> world" where
  "example_world rows =
     \<lparr>sql_Open = (\<lambda>t driver dsn. Inr (DB 0)), db_Ping = (\<lambda>t conn. None),
      db_Close = (\<lambda>t conn. None), db_Exec = (\<lambda>t conn stmt args. None),
      db_Query = (\<lambda>t conn query args. rows_result rows)\<rparr>"


text \<open>Three endpoints, for the connection pool.\<close>

definition three_servers :: Config where
  "three_servers =
     \<lparr>Servers = [example_server, example_server\<lparr>Host := ''h2''\<rparr>, example_server\<lparr>Host := ''h3''\<rparr>],
      Databases = [\<lparr>Name = ''db'', Tables = [(''t'', example_table)]\<rparr>]\<rparr>"

text \<open>
  A world in which every open succeeds, with the time of the call as the handle, and
  only the first handle answers the ping.
\<close>

definition one_alive :: world where
  "one_alive =
     \<lparr>sql_Open = (\<lambda>t driver dsn. Inr (DB t)),
      db_Ping = (\<lambda>t conn. if conn = DB 0 then None else Some ''timeout''),
      db_Close = (\<lambda>t conn. None), db_Exec = (\<lambda>t conn stmt args. None),
      db_Query = (\<lambda>t conn query args. rows_result [])\<rparr>"

text \<open>A desired table whose only column has a type made of white space.\<close>

definition blank_table :: Table where
  "blank_table = example_table\<lparr>Columns := [(''a'', ''  '')]\<rparr>"

definition blank_config :: Config where
  "blank_config =
     \<lparr>Servers = [example_server],
      Databases = [\<lparr>Name = ''db'', Tables = [(''t'', blank_table)]\<rparr>]\<rparr>"

section \<open>Basic facts\<close>

lemma map_of_WithField: "map_of (WithField k v l) = (map_of l)(k \<mapsto> v)"
  by (induction l) (auto simp: fun_eq_iff)

lemma field_WithField: "field (WithField k v l) k' = (if k' = k then v else field l k')"
  by (simp add: field_def map_of_WithField)

lemma divergences_Nil [simp]: "divergences [] = []"
  by (simp add: divergences_def map_filter_simps)

lemma divergences_append [simp]: "divergences (xs @ ys) = divergences xs @ divergences ys"
  by (simp add: divergences_def map_filter_def)

lemma divergences_Go [simp]: "divergences (Go c # evs) = divergences evs"
  by (simp add: divergences_def map_filter_simps divergence_of_def)

lemma divergences_excess [simp]:
  "divergences (Log ErrorLevel (WithField ''column'' c l) ''Table has excess column'' # evs)
     = ColumnExcess c # divergences evs"
  by (simp add: divergences_def map_filter_simps divergence_of_def field_WithField)

lemma divergences_mismatch [simp]:
  "divergences (Log ErrorLevel
       (WithFields [(''column'', c), (''need type'', n), (''has type'', h)] l)
       ''Column type mismatch'' # evs)
     = TypeMismatch c n h # divergences evs"
  by (simp add: divergences_def map_filter_simps divergence_of_def field_WithField)

lemma divergences_missing [simp]:
  "divergences (Log ErrorLevel (WithField ''column'' c l) ''Table has not enough columns'' # evs)
     = ColumnMissing c # divergences evs"
  by (simp add: divergences_def map_filter_simps divergence_of_def field_WithField)

lemma divergences_absent [simp]:
  "divergences (Log ErrorLevel l ''Table does not exist'' # evs) = ObjectMissing # divergences evs"
  by (simp add: divergences_def map_filter_simps divergence_of_def)

lemma spawned_Nil [simp]: "spawned [] = []"
  by (simp add: spawned_def map_filter_simps)

lemma spawned_append [simp]: "spawned (xs @ ys) = spawned xs @ spawned ys"
  by (simp add: spawned_def map_filter_def)

lemma spawned_Go [simp]: "spawned (Go c # evs) = c # spawned evs"
  by (simp add: spawned_def map_filter_simps)

lemma spawned_Log [simp]: "spawned (Log lvl l msg # evs) = spawned evs"
  by (simp add: spawned_def map_filter_simps)

section \<open>Fields on ASCII text\<close>

text \<open>
  On ASCII text \<open>Fields\<close> does what its name says: a non-empty run of ASCII characters
  other than white space, followed by an ASCII white-space character, is the first field.
\<close>

lemma DecodeRune_ascii:
  assumes "(of_char c :: nat) < 128"
  shows "DecodeRune (c # cs) = (of_char c, 1)"
  using assms by simp

lemma FieldsFunc_loop_token:
  assumes "\<forall>c \<in> set tok. (of_char c :: nat) < 128 \<and> \<not> IsSpace (of_char c)" and "tok \<noteq> []"
  shows "FieldsFunc_loop IsSpace (tok @ s) cur
           = FieldsFunc_loop IsSpace s (Some ((case cur of None \<Rightarrow> [] | Some fld \<Rightarrow> fld) @ tok))"
  using assms
proof (induction tok arbitrary: cur)
  case Nil
  then show ?case by simp
next
  case (Cons c tok)
  from Cons.prems have c: "(of_char c :: nat) < 128" "\<not> IsSpace (of_char c)" by simp_all
  have step: "FieldsFunc_loop IsSpace ((c # tok) @ s) cur
      = FieldsFunc_loop IsSpace (tok @ s) (Some ((case cur of None \<Rightarrow> [] | Some fld \<Rightarrow> fld) @ [c]))"
    using c by (simp add: DecodeRune_ascii del: DecodeRune.simps)
  show ?case
  proof (cases "tok = []")
    case True
    with step show ?thesis by simp
  next
    case False
    with Cons.prems have "\<forall>c \<in> set tok. (of_char c :: nat) < 128 \<and> \<not> IsSpace (of_char c)"
      by simp
    from Cons.IH [OF this False] step show ?thesis by simp
  qed
qed

lemma Fields_first_token:
  assumes "\<forall>c \<in> set tok. (of_char c :: nat) < 128 \<and> \<not> IsSpace (of_char c)" and "tok \<noteq> []"
    and "(of_char sp :: nat) < 128" and "IsSpace (of_char sp)"
  shows "Fields (tok @ sp # s) = tok # Fields s"
proof -
  have "FieldsFunc_loop IsSpace (sp # s) (Some tok) = tok # FieldsFunc_loop IsSpace s None"
    using assms(3,4) by (simp add: DecodeRune_ascii flush_def del: DecodeRune.simps)
  then show ?thesis
    using FieldsFunc_loop_token [OF assms(1,2), of "sp # s" None]
    by (simp add: Fields_def FieldsFunc_def)
qed

lemma Fields_single_token:
  assumes "\<forall>c \<in> set tok. (of_char c :: nat) < 128 \<and> \<not> IsSpace (of_char c)" and "tok \<noteq> []"
  shows "Fields tok = [tok]"
  using FieldsFunc_loop_token [OF assms, of "[]" None]
  by (simp add: Fields_def FieldsFunc_def flush_def)

section \<open>The loop over the live rows\<close>

text \<open>One step of \<open>rows_loop\<close>, by the case of its row.\<close>

lemma rows_loop_no_columns:
  "Columns table = [] \<Longrightarrow> rows_loop sync name table l i rows = ([], None)"
  by (induction rows) auto

lemma rows_loop_excess:
  assumes "Columns table \<noteq> []" and "map_of (Columns table) c = None"
  shows "rows_loop sync name table l i ((c, ty) # rows) =
           (Log ErrorLevel (WithField ''column'' c l) ''Table has excess column''
              # (if fix' sync \<and> dropColumns sync then [Go (DropColumn_call i name c)] else [])
              @ fst (rows_loop sync name table l i rows),
            snd (rows_loop sync name table l i rows))"
  using assms by (simp split: prod.splits)

lemma rows_loop_panic:
  assumes "map_of (Columns table) c = Some needType" and "Fields needType = []"
  shows "rows_loop sync name table l i ((c, ty) # rows) = ([], Some (IndexOutOfRange 0 0))"
proof -
  from assms(1) have "Columns table \<noteq> []" by auto
  with assms show ?thesis by simp
qed

lemma rows_loop_mismatch:
  assumes "map_of (Columns table) c = Some needType" and "Fields needType = n # rest"
    and "n \<noteq> ty"
  shows "rows_loop sync name table l i ((c, ty) # rows) =
           (Log ErrorLevel
              (WithFields [(''column'', c), (''need type'', n), (''has type'', ty)] l)
              ''Column type mismatch''
              # (if fix' sync then [Go (ModifyColumn_call i name c n)] else [])
              @ fst (rows_loop sync name table l i rows),
            snd (rows_loop sync name table l i rows))"
proof -
  from assms(1) have "Columns table \<noteq> []" by auto
  with assms show ?thesis by (simp split: prod.splits)
qed

lemma rows_loop_match:
  assumes "map_of (Columns table) c = Some needType" and "Fields needType = ty # rest"
  shows "rows_loop sync name table l i ((c, ty) # rows) = rows_loop sync name table l i rows"
proof -
  from assms(1) have "Columns table \<noteq> []" by auto
  with assms show ?thesis by simp
qed

text \<open>Every row falls under exactly one of the five cases.\<close>

lemma row_cases:
  obtains (no_columns) "Columns table = []"
  | (excess) "Columns table \<noteq> []" "map_of (Columns table) c = None"
  | (panic) needType where "map_of (Columns table) c = Some needType" "Fields needType = []"
  | (mismatch) needType n rest where "map_of (Columns table) c = Some needType"
      "Fields needType = n # rest" "n \<noteq> ty"
  | (match) needType rest where "map_of (Columns table) c = Some needType"
      "Fields needType = ty # rest"
proof (cases "Columns table = []")
  case True
  then show ?thesis by (rule no_columns)
next
  case False
  show ?thesis
  proof (cases "map_of (Columns table) c")
    case None
    with False show ?thesis by (rule excess)
  next
    case (Some needType)
    show ?thesis
    proof (cases "Fields needType")
      case Nil
      with Some show ?thesis by (rule panic)
    next
      case (Cons n rest)
      show ?thesis
      proof (cases "n = ty")
        case True
        with Some Cons show ?thesis using match by simp
      next
        case False
        with Some Cons show ?thesis by (rule mismatch)
      qed
    qed
  qed
qed

lemma rows_loop_divergences:
  "list_all is_row_divergence (divergences (fst (rows_loop sync name table l i rows)))
   \<and> subseq (map divergence_column (divergences (fst (rows_loop sync name table l i rows))))
        (map fst rows)"
proof (induction rows)
  case Nil
  show ?case by simp
next
  case (Cons row rows)
  obtain c ty where row: "row = (c, ty)" by (cases row)
  show ?case
  proof (cases rule: row_cases [where table = table and c = c and ty = ty])
    case no_columns
    then show ?thesis by (simp add: rows_loop_no_columns)
  next
    case excess
    with Cons show ?thesis unfolding row by (simp add: rows_loop_excess del: rows_loop.simps)
  next
    case (panic needType)
    then show ?thesis unfolding row by (simp add: rows_loop_panic del: rows_loop.simps)
  next
    case (mismatch needType n rest)
    with Cons show ?thesis unfolding row
      by (simp add: rows_loop_mismatch del: rows_loop.simps WithFields.simps)
  next
    case (match needType rest)
    with Cons show ?thesis unfolding row
      by (simp add: rows_loop_match list_emb_Cons del: rows_loop.simps)
  qed
qed

lemma missing_loop_divergences:
  "divergences (missing_loop sync name l i ex cols)
     = map ColumnMissing (filter (\<lambda>c. c \<notin> set ex) (map fst cols))"
  by (induction cols) auto

lemma check_replica_panic:
  assumes "snd (rows_loop sync name table l i (live e)) = Some p"
  shows "check_replica sync name table l i e
           = (fst (rows_loop sync name table l i (live e)), Some p)"
  using assms by (cases "rows_loop sync name table l i (live e)") (simp add: check_replica_def)

lemma check_replica_absent:
  assumes "live e = []"
  shows "check_replica sync name table l i e
           = (Log ErrorLevel l ''Table does not exist''
                # (if fix' sync
                   then (if View table then [Go (CreateView_call i name table)]
                         else [Go (CreateTable_call i name table)])
                   else []), None)"
  using assms by (simp add: check_replica_def)

lemma check_replica_present:
  assumes "snd (rows_loop sync name table l i (live e)) = None" and "live e \<noteq> []"
  shows "check_replica sync name table l i e
           = (fst (rows_loop sync name table l i (live e))
                @ missing_loop sync name l i (map fst (live e)) (Columns table), None)"
  using assms by (cases "rows_loop sync name table l i (live e)") (simp add: check_replica_def)

section \<open>Claims about one replica's check\<close>

text \<open>
  Claim C3. For every desired table, if the live column sequence of a replica is empty
  (no row was read), the check of that replica reports exactly one divergence,
  \<open>ObjectMissing\<close>, and no column-level divergence, whatever the desired table
  holds; and it does not panic.
\<close>

theorem C3_empty_live_reports_object_missing:
  assumes "live e = []"
  shows "divergences (fst (check_replica sync name table l i e)) = [ObjectMissing]
         \<and> snd (check_replica sync name table l i e) = None"
  using assms by (simp add: check_replica_absent)

theorem C3_empty_live_reports_object_missing_witness:
  "live (rows_result []) = []
   \<and> divergences (fst (check_replica example_sync ''t'' example_table [] 0 (rows_result [])))
       = [ObjectMissing]
   \<and> snd (check_replica example_sync ''t'' example_table [] 0 (rows_result [])) = None"
proof -
  have h: "live (rows_result []) = []" by (simp add: live_def rows_result_def)
  show ?thesis
    using h C3_empty_live_reports_object_missing [OF h, of example_sync "''t''" example_table "[]" 0]
    by simp
qed

text \<open>Divergences of the row loop followed by missing columns split back into the two parts.\<close>

lemma filter_row_missing:
  assumes "list_all is_row_divergence xs"
  shows "filter is_row_divergence (xs @ map ColumnMissing cs) = xs"
    and "filter is_missing (xs @ map ColumnMissing cs) = map ColumnMissing cs"
proof -
  have a: "filter is_row_divergence xs = xs" using assms by (induction xs) auto
  have b: "filter is_missing xs = []" using assms
    by (induction xs) (auto elim: is_row_divergence.elims)
  have c: "filter is_row_divergence (map ColumnMissing cs) = []" by (induction cs) auto
  have d: "filter is_missing (map ColumnMissing cs) = map ColumnMissing cs" by (induction cs) auto
  show "filter is_row_divergence (xs @ map ColumnMissing cs) = xs" using a c by simp
  show "filter is_missing (xs @ map ColumnMissing cs) = map ColumnMissing cs" using b d by simp
qed

lemma check_replica_divergences:
  assumes "live e \<noteq> []"
  obtains xs cs where
    "divergences (fst (check_replica sync name table l i e)) = xs @ map ColumnMissing cs"
    "list_all is_row_divergence xs"
    "subseq (map divergence_column xs) (map fst (live e))"
    "subseq cs (map fst (Columns table))"
proof -
  let ?r = "rows_loop sync name table l i (live e)"
  let ?xs = "divergences (fst ?r)"
  have xs: "list_all is_row_divergence ?xs" "subseq (map divergence_column ?xs) (map fst (live e))"
    using rows_loop_divergences [of sync name table l i "live e"] by simp_all
  show thesis
  proof (cases "snd ?r")
    case None
    let ?cs = "filter (\<lambda>c. c \<notin> set (map fst (live e))) (map fst (Columns table))"
    have "divergences (fst (check_replica sync name table l i e)) = ?xs @ map ColumnMissing ?cs"
      using None assms
      by (simp add: check_replica_present missing_loop_divergences)
    moreover have "subseq ?cs (map fst (Columns table))" by simp
    ultimately show thesis using xs that by blast
  next
    case (Some p)
    have "divergences (fst (check_replica sync name table l i e)) = ?xs @ map ColumnMissing []"
      using Some by (simp add: check_replica_panic)
    then show thesis using xs that [of ?xs "[]"] by simp
  qed
qed

lemma sorted_row_rank:
  assumes "list_all is_row_divergence xs"
  shows "sorted (map row_rank (xs @ map ColumnMissing cs))"
proof -
  have a: "map row_rank xs = replicate (length xs) 0"
    using assms by (induction xs) (auto elim: is_row_divergence.elims)
  have b: "map row_rank (map ColumnMissing cs) = replicate (length cs) 1"
    by (induction cs) auto
  show ?thesis unfolding map_append a b by (simp add: sorted_append)
qed

text \<open>
  Claim C1, as amended. For every desired table and every live column sequence, the
  divergences of one check of one replica are ordered in two groups: every
  \<open>ColumnExcess\<close> and every \<open>TypeMismatch\<close> divergence precedes every
  \<open>ColumnMissing\<close> divergence. The excess and mismatch divergences are interleaved,
  in the discovery order of the live column sequence; the missing ones are in the order
  in which the iteration over the desired column mapping yields its columns.
\<close>

theorem C1_rows_before_missing:
  "(let ds = divergences (fst (check_replica sync name table l i e)) in
      sorted (map row_rank ds)
      \<and> subseq (map divergence_column (filter is_row_divergence ds)) (map fst (live e))
      \<and> subseq (map divergence_column (filter is_missing ds)) (map fst (Columns table)))"
proof (cases "live e = []")
  case True
  then show ?thesis by (simp add: check_replica_absent)
next
  case False
  obtain xs cs where ds: "divergences (fst (check_replica sync name table l i e)) = xs @ map ColumnMissing cs"
    and xs: "list_all is_row_divergence xs" "subseq (map divergence_column xs) (map fst (live e))"
    and cs: "subseq cs (map fst (Columns table))"
    using check_replica_divergences [OF False] by blast
  have col: "map divergence_column (map ColumnMissing cs) = cs" by (induction cs) auto
  show ?thesis
    unfolding Let_def ds filter_row_missing [OF xs(1)]
    using xs(2) cs col sorted_row_rank [OF xs(1)] by simp
qed

theorem C1_rows_before_missing_witness:
  "divergences (fst (check_replica example_sync ''t'' example_table [] 0
       (rows_result [(''b'', ''String'')]))) = [ColumnExcess ''b'', ColumnMissing ''a'']
   \<and> (let ds = divergences (fst (check_replica example_sync ''t'' example_table [] 0
                   (rows_result [(''b'', ''String'')]))) in
          sorted (map row_rank ds)
          \<and> subseq (map divergence_column (filter is_row_divergence ds))
               (map fst (live (rows_result [(''b'', ''String'')])))
          \<and> subseq (map divergence_column (filter is_missing ds))
               (map fst (Columns example_table)))"
proof -
  have ds: "divergences (fst (check_replica example_sync ''t'' example_table [] 0
       (rows_result [(''b'', ''String'')]))) = [ColumnExcess ''b'', ColumnMissing ''a'']"
    by code_simp
  show ?thesis
    using ds C1_rows_before_missing [where sync = example_sync and name = "''t''"
        and table = example_table and l = "[]" and i = 0
        and e = "rows_result [(''b'', ''String'')]"]
    by (rule conjI)
qed

lemma Fields_example: "Fields ''UInt8 DEFAULT 0'' = [''UInt8'', ''DEFAULT'', ''0'']"
  by (simp add: Fields_def FieldsFunc_def IsSpace_def flush_def)

text \<open>
  The claim as stated fails: a live column with a mismatched type that is read before
  an excess column is reported before it.
\<close>

theorem C1_three_groups_counterexample:
  "divergences (fst (check_replica example_sync ''t'' example_table [] 0
       (rows_result [(''a'', ''String''), (''b'', ''String'')])))
     = [TypeMismatch ''a'' ''UInt8'' ''String'', ColumnExcess ''b'']
   \<and> \<not> sorted (map group_rank (divergences (fst (check_replica example_sync ''t'' example_table [] 0
       (rows_result [(''a'', ''String''), (''b'', ''String'')])))))"
  by code_simp

text \<open>Rows that agree with the desired columns produce no event.\<close>

lemma rows_loop_agree:
  assumes "list_all (row_agrees table) rows"
  shows "rows_loop sync name table l i rows = ([], None)"
  using assms
proof (induction rows)
  case Nil
  show ?case by simp
next
  case (Cons row rows)
  obtain c ty where row: "row = (c, ty)" by (cases row)
  from Cons.prems have "row_agrees table (c, ty)" and rest: "list_all (row_agrees table) rows"
    by (simp_all add: row)
  then obtain needType tail where "map_of (Columns table) c = Some needType"
    "Fields needType = ty # tail"
    by (auto simp: row_agrees_def split: option.splits list.splits)
  then have "rows_loop sync name table l i ((c, ty) # rows) = rows_loop sync name table l i rows"
    by (rule rows_loop_match)
  with Cons.IH [OF rest] show ?case by (simp add: row)
qed

lemma missing_loop_none:
  assumes "set (map fst cols) \<subseteq> set ex"
  shows "missing_loop sync name l i ex cols = []"
  using assms by (induction cols) auto

text \<open>
  Claim C2, as amended. For every desired table and every non-empty live column
  sequence with the same column names, where each live type equals the first
  white-space-delimited field of the desired type of its column, the check of the
  replica produces no event at all: no divergence is logged and no corrective call is
  started.
\<close>

theorem C2_same_columns_no_divergence:
  assumes "live e \<noteq> []" and "same_columns table e"
  shows "check_replica sync name table l i e = ([], None)"
proof -
  from assms(2) have names: "set (map fst (Columns table)) \<subseteq> set (map fst (live e))"
    and types: "list_all (row_agrees table) (live e)"
    by (simp_all add: same_columns_def)
  have "rows_loop sync name table l i (live e) = ([], None)"
    using types by (rule rows_loop_agree)
  then show ?thesis
    using assms(1) missing_loop_none [OF names] by (simp add: check_replica_present)
qed

theorem C2_same_columns_no_divergence_witness:
  "live (rows_result [(''a'', ''UInt8'')]) \<noteq> []
   \<and> same_columns example_table (rows_result [(''a'', ''UInt8'')])
   \<and> check_replica example_sync ''t'' example_table [] 0 (rows_result [(''a'', ''UInt8'')])
       = ([], None)"
proof -
  have h1: "live (rows_result [(''a'', ''UInt8'')]) \<noteq> []"
    by (simp add: live_def rows_result_def)
  have h2: "same_columns example_table (rows_result [(''a'', ''UInt8'')])"
    by code_simp
  show ?thesis
    using h1 h2 C2_same_columns_no_divergence [OF h1 h2, of example_sync "''t''" "[]" 0]
    by simp
qed

text \<open>
  The claim as stated fails when both column sets are empty: the desired table declares
  no column and no row is read, yet \<open>ObjectMissing\<close> is reported and, with fixes
  applied, a table is created.
\<close>

theorem C2_both_empty_counterexample:
  "same_columns (example_table\<lparr>Columns := []\<rparr>) (rows_result [])
   \<and> divergences (fst (check_replica example_sync ''t'' (example_table\<lparr>Columns := []\<rparr>) [] 0
         (rows_result []))) = [ObjectMissing]
   \<and> spawned (fst (check_replica example_sync ''t'' (example_table\<lparr>Columns := []\<rparr>) [] 0
         (rows_result []))) = [CreateTable_call 0 ''t'' (example_table\<lparr>Columns := []\<rparr>)]"
  by code_simp

text \<open>The corrective calls started for excess and mismatched columns.\<close>

lemma excess_of_missing [simp]: "List.map_filter excess_column (map ColumnMissing cs) = []"
  by (induction cs) (simp_all add: map_filter_simps)

lemma modify_of_missing [simp]: "List.map_filter (modify_for i name) (map ColumnMissing cs) = []"
  by (induction cs) (simp_all add: map_filter_simps)

lemma map_filter_append: "List.map_filter f (xs @ ys) = List.map_filter f xs @ List.map_filter f ys"
  by (simp add: map_filter_def)

lemma rows_loop_drop:
  "filter is_drop (spawned (fst (rows_loop sync name table l i rows)))
     = (if fix' sync \<and> dropColumns sync
        then map (DropColumn_call i name)
               (List.map_filter excess_column (divergences (fst (rows_loop sync name table l i rows))))
        else [])"
proof (induction rows)
  case Nil
  show ?case by (simp add: map_filter_simps)
next
  case (Cons row rows)
  obtain c ty where row: "row = (c, ty)" by (cases row)
  show ?case
  proof (cases rule: row_cases [where table = table and c = c and ty = ty])
    case no_columns
    then show ?thesis by (simp add: rows_loop_no_columns map_filter_simps)
  next
    case excess
    with Cons show ?thesis unfolding row
      by (simp add: rows_loop_excess map_filter_simps del: rows_loop.simps)
  next
    case (panic needType)
    then show ?thesis unfolding row
      by (simp add: rows_loop_panic map_filter_simps del: rows_loop.simps)
  next
    case (mismatch needType n rest)
    with Cons show ?thesis unfolding row
      by (simp add: rows_loop_mismatch map_filter_simps del: rows_loop.simps WithFields.simps)
  next
    case (match needType rest)
    with Cons show ?thesis unfolding row
      by (simp add: rows_loop_match del: rows_loop.simps)
  qed
qed

lemma rows_loop_modify:
  "filter is_modify (spawned (fst (rows_loop sync name table l i rows)))
     = (if fix' sync
        then List.map_filter (modify_for i name)
               (divergences (fst (rows_loop sync name table l i rows)))
        else [])
   \<and> list_all (first_token_of_config table)
        (divergences (fst (rows_loop sync name table l i rows)))"
proof (induction rows)
  case Nil
  show ?case by (simp add: map_filter_simps)
next
  case (Cons row rows)
  obtain c ty where row: "row = (c, ty)" by (cases row)
  show ?case
  proof (cases rule: row_cases [where table = table and c = c and ty = ty])
    case no_columns
    then show ?thesis by (simp add: rows_loop_no_columns map_filter_simps)
  next
    case excess
    with Cons show ?thesis unfolding row
      by (simp add: rows_loop_excess map_filter_simps del: rows_loop.simps)
  next
    case (panic needType)
    then show ?thesis unfolding row
      by (simp add: rows_loop_panic map_filter_simps del: rows_loop.simps)
  next
    case (mismatch needType n rest)
    with Cons show ?thesis unfolding row
      by (simp add: rows_loop_mismatch map_filter_simps del: rows_loop.simps WithFields.simps)
  next
    case (match needType rest)
    with Cons show ?thesis unfolding row
      by (simp add: rows_loop_match del: rows_loop.simps)
  qed
qed

lemma missing_loop_spawned:
  "filter is_drop (spawned (missing_loop sync name l i ex cols)) = []
   \<and> filter is_modify (spawned (missing_loop sync name l i ex cols)) = []"
  by (induction cols) auto

lemma list_all_first_token_missing [simp]:
  "list_all (first_token_of_config table) (map ColumnMissing cs)"
  by (induction cs) auto

text \<open>The shape of the events of one replica's check, in its three outcomes.\<close>

lemma check_replica_shape:
  obtains (panic) p where
      "check_replica sync name table l i e = (fst (rows_loop sync name table l i (live e)), Some p)"
  | (absent) "live e = []"
      "check_replica sync name table l i e
         = (Log ErrorLevel l ''Table does not exist''
              # (if fix' sync
                 then (if View table then [Go (CreateView_call i name table)]
                       else [Go (CreateTable_call i name table)])
                 else []), None)"
  | (present) "live e \<noteq> []"
      "check_replica sync name table l i e
         = (fst (rows_loop sync name table l i (live e))
              @ missing_loop sync name l i (map fst (live e)) (Columns table), None)"
proof (cases "snd (rows_loop sync name table l i (live e))")
  case (Some p)
  then show ?thesis using panic check_replica_panic by blast
next
  case None
  show ?thesis
  proof (cases "live e = []")
    case True
    then show ?thesis using absent check_replica_absent by blast
  next
    case False
    with None show ?thesis using present check_replica_present by blast
  qed
qed

lemma check_replica_drop:
  "filter is_drop (spawned (fst (check_replica sync name table l i e)))
     = (if fix' sync \<and> dropColumns sync
        then map (DropColumn_call i name)
               (List.map_filter excess_column (divergences (fst (check_replica sync name table l i e))))
        else [])"
proof (cases rule: check_replica_shape [where sync = sync and name = name and table = table
      and l = l and i = i and e = e])
  case (panic p)
  then show ?thesis using rows_loop_drop [of sync name table l i "live e"] by simp
next
  case absent
  then show ?thesis by (simp add: map_filter_simps)
next
  case present
  then show ?thesis
    using rows_loop_drop [of sync name table l i "live e"]
    by (simp add: missing_loop_spawned missing_loop_divergences map_filter_append)
qed

lemma check_replica_modify:
  "filter is_modify (spawned (fst (check_replica sync name table l i e)))
     = (if fix' sync
        then List.map_filter (modify_for i name)
               (divergences (fst (check_replica sync name table l i e)))
        else [])
   \<and> list_all (first_token_of_config table)
        (divergences (fst (check_replica sync name table l i e)))"
proof (cases rule: check_replica_shape [where sync = sync and name = name and table = table
      and l = l and i = i and e = e])
  case (panic p)
  then show ?thesis using rows_loop_modify [of sync name table l i "live e"] by simp
next
  case absent
  then show ?thesis by (simp add: map_filter_simps)
next
  case present
  then show ?thesis
    using rows_loop_modify [of sync name table l i "live e"]
    by (simp add: missing_loop_spawned missing_loop_divergences map_filter_append)
qed

lemma statements_exec_and_log [simp]:
  "statements (exec_and_log w t conn l stmt failed succeeded) = [stmt]"
  by (simp add: statements_def exec_and_log_def map_filter_simps split: option.splits)

lemma rows_loop_flags:
  "divergences (fst (rows_loop (sync\<lparr>fix' := f, dropColumns := d\<rparr>) name table l i rows))
     = divergences (fst (rows_loop sync name table l i rows))
   \<and> snd (rows_loop (sync\<lparr>fix' := f, dropColumns := d\<rparr>) name table l i rows)
     = snd (rows_loop sync name table l i rows)"
proof (induction rows)
  case Nil
  show ?case by simp
next
  case (Cons row rows)
  obtain c ty where row: "row = (c, ty)" by (cases row)
  show ?case
  proof (cases rule: row_cases [where table = table and c = c and ty = ty])
    case no_columns
    then show ?thesis by (simp add: rows_loop_no_columns)
  next
    case excess
    with Cons show ?thesis unfolding row
      by (simp add: rows_loop_excess del: rows_loop.simps)
  next
    case (panic needType)
    then show ?thesis unfolding row
      by (simp add: rows_loop_panic del: rows_loop.simps)
  next
    case (mismatch needType n rest)
    with Cons show ?thesis unfolding row
      by (simp add: rows_loop_mismatch del: rows_loop.simps WithFields.simps)
  next
    case (match needType rest)
    with Cons show ?thesis unfolding row
      by (simp add: rows_loop_match del: rows_loop.simps)
  qed
qed

lemma check_replica_flags:
  "divergences (fst (check_replica (sync\<lparr>fix' := f, dropColumns := d\<rparr>) name table l i e))
     = divergences (fst (check_replica sync name table l i e))"
proof (cases "snd (rows_loop sync name table l i (live e))")
  case (Some p)
  then have "snd (rows_loop (sync\<lparr>fix' := f, dropColumns := d\<rparr>) name table l i (live e)) = Some p"
    by (simp add: rows_loop_flags)
  with Some show ?thesis by (simp add: check_replica_panic rows_loop_flags)
next
  case None
  then have n: "snd (rows_loop (sync\<lparr>fix' := f, dropColumns := d\<rparr>) name table l i (live e)) = None"
    by (simp add: rows_loop_flags)
  show ?thesis
  proof (cases "live e = []")
    case True
    then show ?thesis by (simp add: check_replica_absent)
  next
    case False
    with None n show ?thesis
      by (simp add: check_replica_present rows_loop_flags missing_loop_divergences)
  qed
qed

text \<open>
  Claim C5. In the check of one replica, the \<open>DropColumn\<close> calls started are, in
  order, one for each logged \<open>ColumnExcess\<close> divergence when both \<open>fix\<close> and
  \<open>dropColumns\<close> are set, and none otherwise; the divergences logged do not depend
  on the two flags; and a \<open>DropColumn\<close> call issues the statement
  \<open>ALTER TABLE name DROP COLUMN column\<close>.
\<close>

theorem C5_drop_iff_fix_and_dropColumns:
  "(let evs = fst (check_replica sync name table l i e) in
      filter is_drop (spawned evs)
        = (if fix' sync \<and> dropColumns sync
           then map (DropColumn_call i name) (List.map_filter excess_column (divergences evs))
           else []))
   \<and> divergences (fst (check_replica (sync\<lparr>fix' := f, dropColumns := d\<rparr>) name table l i e))
       = divergences (fst (check_replica sync name table l i e))
   \<and> (i < length (connections sync) \<and> i < length (Servers (config sync)) \<longrightarrow>
        statements (fst (run_call w sync t (DropColumn_call i name c)))
          = [''ALTER TABLE '' @ name @ '' DROP COLUMN '' @ c])"
proof -
  have "statements (fst (run_call w sync t (DropColumn_call i name c)))
          = [''ALTER TABLE '' @ name @ '' DROP COLUMN '' @ c]"
    if "i < length (connections sync)" "i < length (Servers (config sync))"
    using that by (simp add: DropColumn_def DropColumn_sql_def Let_def del: WithFields.simps)
  then show ?thesis
    using check_replica_drop [of sync name table l i e]
      check_replica_flags [where sync = sync and f = f and d = d and name = name
        and table = table and l = l and i = i and e = e]
    by (simp add: Let_def)
qed

theorem C5_drop_iff_fix_and_dropColumns_witness:
  "(0 < length (connections example_sync) \<and> 0 < length (Servers (config example_sync)))
   \<and> filter is_drop (spawned (fst (check_replica example_sync ''t'' example_table [] 0
         (rows_result [(''b'', ''String'')])))) = [DropColumn_call 0 ''t'' ''b'']
   \<and> divergences (fst (check_replica (example_sync\<lparr>fix' := True, dropColumns := False\<rparr>) ''t''
         example_table [] 0 (rows_result [(''b'', ''String'')])))
       = divergences (fst (check_replica example_sync ''t'' example_table [] 0
           (rows_result [(''b'', ''String'')])))
   \<and> statements (fst (run_call (example_world []) example_sync 0 (DropColumn_call 0 ''t'' ''b'')))
       = [''ALTER TABLE t DROP COLUMN b'']"
proof -
  have h: "0 < length (connections example_sync) \<and> 0 < length (Servers (config example_sync))"
    by (simp add: example_sync_def example_config_def)
  have flags: "fix' example_sync \<and> dropColumns example_sync"
    by (simp add: example_sync_def)
  have ex: "List.map_filter excess_column (divergences (fst (check_replica example_sync ''t''
      example_table [] 0 (rows_result [(''b'', ''String'')])))) = [''b'']"
    by code_simp
  show ?thesis
    using h flags ex
      C5_drop_iff_fix_and_dropColumns [where sync = example_sync and name = "''t''"
        and table = example_table and l = "[]" and i = 0
        and e = "rows_result [(''b'', ''String'')]" and f = True and d = False
        and w = "example_world []" and t = 0 and c = "''b''"]
    by (simp add: Let_def)
qed

text \<open>
  Claim C7, as amended. In the check of one replica with \<open>fix\<close> set, the
  \<open>ModifyColumn\<close> calls started are, in order, one for each logged \<open>TypeMismatch\<close>
  divergence, with the needed type of that divergence; that needed type is the first
  white-space-delimited field of the type configured for the column; and the call
  issues the statement \<open>ALTER TABLE name MODIFY COLUMN column type\<close> with that first
  field as the type.
\<close>

theorem C7_modify_uses_first_token:
  "(let evs = fst (check_replica sync name table l i e) in
      filter is_modify (spawned evs)
        = (if fix' sync then List.map_filter (modify_for i name) (divergences evs) else [])
      \<and> list_all (first_token_of_config table) (divergences evs))
   \<and> (i < length (connections sync) \<and> i < length (Servers (config sync)) \<longrightarrow>
        statements (fst (run_call w sync t (ModifyColumn_call i name c n)))
          = [''ALTER TABLE '' @ name @ '' MODIFY COLUMN '' @ c @ '' '' @ n])"
proof -
  have "statements (fst (run_call w sync t (ModifyColumn_call i name c n)))
          = [''ALTER TABLE '' @ name @ '' MODIFY COLUMN '' @ c @ '' '' @ n]"
    if "i < length (connections sync)" "i < length (Servers (config sync))"
    using that by (simp add: ModifyColumn_def ModifyColumn_sql_def Let_def del: WithFields.simps)
  then show ?thesis
    using check_replica_modify [of sync name table l i e]
    by (simp add: Let_def)
qed

theorem C7_modify_uses_first_token_witness:
  "(0 < length (connections example_sync) \<and> 0 < length (Servers (config example_sync)))
   \<and> filter is_modify (spawned (fst (check_replica example_sync ''t'' example_table [] 0
         (rows_result [(''a'', ''UInt16'')])))) = [ModifyColumn_call 0 ''t'' ''a'' ''UInt8'']
   \<and> list_all (first_token_of_config example_table)
        (divergences (fst (check_replica example_sync ''t'' example_table [] 0
           (rows_result [(''a'', ''UInt16'')]))))
   \<and> statements (fst (run_call (example_world []) example_sync 0
         (ModifyColumn_call 0 ''t'' ''a'' ''UInt8'')))
       = [''ALTER TABLE t MODIFY COLUMN a UInt8'']"
proof -
  have h: "0 < length (connections example_sync) \<and> 0 < length (Servers (config example_sync))"
    by (simp add: example_sync_def example_config_def)
  have flags: "fix' example_sync"
    by (simp add: example_sync_def)
  have ex: "List.map_filter (modify_for 0 ''t'') (divergences (fst (check_replica example_sync ''t''
      example_table [] 0 (rows_result [(''a'', ''UInt16'')]))))
      = [ModifyColumn_call 0 ''t'' ''a'' ''UInt8'']"
    by code_simp
  show ?thesis
    using h flags ex
      C7_modify_uses_first_token [where sync = example_sync and name = "''t''"
        and table = example_table and l = "[]" and i = 0
        and e = "rows_result [(''a'', ''UInt16'')]" and w = "example_world []" and t = 0
        and c = "''a''" and n = "''UInt8''"]
    by (simp add: Let_def)
qed

text \<open>
  The claim as stated fails when the configured type carries a modifier: the statement
  holds the first field only, not the configured type string.
\<close>

theorem C7_configured_type_counterexample:
  "map_of (Columns example_table) ''a'' = Some ''UInt8 DEFAULT 0''
   \<and> divergences (fst (check_replica example_sync ''t'' example_table [] 0
         (rows_result [(''a'', ''UInt16'')]))) = [TypeMismatch ''a'' ''UInt8'' ''UInt16'']
   \<and> spawned (fst (check_replica example_sync ''t'' example_table [] 0
         (rows_result [(''a'', ''UInt16'')]))) = [ModifyColumn_call 0 ''t'' ''a'' ''UInt8'']
   \<and> statements (fst (run_call (example_world []) example_sync 0
         (ModifyColumn_call 0 ''t'' ''a'' ''UInt8'')))
       = [''ALTER TABLE t MODIFY COLUMN a UInt8'']
   \<and> \<not> sublist ''UInt8 DEFAULT 0'' ''ALTER TABLE t MODIFY COLUMN a UInt8''"
  by code_simp

section \<open>A failed catalog query\<close>







section \<open>A desired type without any field\<close>

lemma FieldsFunc_loop_spaces:
  assumes "list_all f (runes s)"
  shows "FieldsFunc_loop f s cur = flush cur"
  using assms
proof (induction s arbitrary: cur rule: runes.induct)
  case 1
  show ?case by simp
next
  case (2 c cs)
  from "2.prems" have sp: "f (fst (DecodeRune (c # cs)))"
    and rest: "list_all f (runes (drop (snd (DecodeRune (c # cs))) (c # cs)))"
    by (simp_all del: DecodeRune.simps)
  have "FieldsFunc_loop f (c # cs) cur
          = flush cur @ FieldsFunc_loop f (drop (snd (DecodeRune (c # cs))) (c # cs)) None"
    using sp by (simp add: Let_def del: DecodeRune.simps)
  also have "\<dots> = flush cur @ flush None"
    using "2.IH" [OF rest] by simp
  finally show ?case by (simp add: flush_def)
qed

lemma only_white_space_Fields:
  assumes "only_white_space s"
  shows "Fields s = []"
  using assms FieldsFunc_loop_spaces [of IsSpace s None]
  by (simp add: only_white_space_def Fields_def FieldsFunc_def flush_def)

lemma rows_loop_bad_row:
  assumes "(c, ty) \<in> set rows" and "map_of (Columns table) c = Some needType"
    and "Fields needType = []"
  shows "snd (rows_loop sync name table l i rows) = Some (IndexOutOfRange 0 0)
         \<and> c \<notin> divergence_column ` set (divergences (fst (rows_loop sync name table l i rows)))"
  using assms(1)
proof (induction rows)
  case Nil
  then show ?case by simp
next
  case (Cons row rows)
  obtain c' ty' where row: "row = (c', ty')" by (cases row)
  show ?case
  proof (cases rule: row_cases [where table = table and c = c' and ty = ty'])
    case no_columns
    with assms(2) show ?thesis by simp
  next
    case excess
    with assms(2) have "c' \<noteq> c" by auto
    with Cons row have "(c, ty) \<in> set rows" by auto
    with Cons.IH excess \<open>c' \<noteq> c\<close> show ?thesis unfolding row
      by (simp add: rows_loop_excess del: rows_loop.simps)
  next
    case (panic needType')
    then show ?thesis unfolding row by (simp add: rows_loop_panic del: rows_loop.simps)
  next
    case (mismatch needType' n rest)
    with assms(2,3) have "c' \<noteq> c" by auto
    with Cons row have "(c, ty) \<in> set rows" by auto
    with Cons.IH mismatch \<open>c' \<noteq> c\<close> show ?thesis unfolding row
      by (simp add: rows_loop_mismatch del: rows_loop.simps WithFields.simps)
  next
    case (match needType' rest)
    with assms(2,3) have "c' \<noteq> c" by auto
    with Cons row have "(c, ty) \<in> set rows" by auto
    with Cons.IH match show ?thesis unfolding row
      by (simp add: rows_loop_match del: rows_loop.simps)
  qed
qed

lemma check_replica_bad_row:
  assumes "(c, ty) \<in> set (live e)" and "map_of (Columns table) c = Some needType"
    and "Fields needType = []"
  shows "snd (check_replica sync name table l i e) = Some (IndexOutOfRange 0 0)
         \<and> c \<notin> divergence_column ` set (divergences (fst (check_replica sync name table l i e)))"
  using rows_loop_bad_row [OF assms, of sync name l i]
  by (simp add: check_replica_panic)

lemma replicas_loop_panics:
  assumes "e \<in> set r" and "\<And>l i. snd (check_replica sync name table l i e) \<noteq> None"
  shows "snd (replicas_loop sync name table l i r) \<noteq> None"
  using assms(1)
proof (induction r arbitrary: l i)
  case Nil
  then show ?case by simp
next
  case (Cons e' r)
  show ?case
  proof (cases "i < length (Servers (config sync))")
    case False
    then show ?thesis by simp
  next
    case True
    let ?l = "WithField ''host'' (Host (Servers (config sync) ! i)) l"
    obtain evs p where cr: "check_replica sync name table ?l i e' = (evs, p)"
      by (cases "check_replica sync name table ?l i e'")
    show ?thesis
    proof (cases p)
      case (Some q)
      with True cr show ?thesis by (simp add: Let_def)
    next
      case None
      with cr assms(2) [of ?l i] have "e' \<noteq> e" by auto
      with Cons.prems have "e \<in> set r" by simp
      from Cons.IH [OF this, of ?l "i + 1"]
      obtain evs' q where "replicas_loop sync name table ?l (i + 1) r = (evs', Some q)"
        by (cases "replicas_loop sync name table ?l (i + 1) r") auto
      with True cr None show ?thesis by (simp add: Let_def)
    qed
  qed
qed

lemma check_results_panics:
  assumes "e \<in> set r" and "\<And>l i. snd (check_replica sync name table l i e) \<noteq> None"
  shows "snd (check_results sync name table r) \<noteq> None"
proof -
  let ?l = "WithFields [(''database'', database sync), (''table'', name)] []"
  from replicas_loop_panics [OF assms, of ?l 0]
  obtain evs q where "replicas_loop sync name table ?l 0 r = (evs, Some q)"
    by (cases "replicas_loop sync name table ?l 0 r") auto
  then show ?thesis
    by (simp add: check_results_def Let_def split: sum.splits del: WithFields.simps)
qed

section \<open>Runs\<close>

lemma harmless_events:
  assumes "list_all (harmless dbs) evs"
  shows "spawned evs = [] \<and> set (statements evs) \<subseteq> (\<lambda>db. ''USE '' @ Name db) ` set dbs"
  using assms
proof (induction evs)
  case Nil
  show ?case by (simp add: statements_def map_filter_simps)
next
  case (Cons ev evs)
  then show ?case
    by (cases ev) (auto simp: statements_def spawned_def map_filter_simps)
qed

lemma Connect_loop_harmless: "list_all (harmless dbs) (fst (Connect_loop w sync t servers))"
  by (induction servers arbitrary: t)
    (simp_all add: Let_def case_prod_unfold split: sum.splits option.splits)

lemma Close_loop_harmless: "list_all (harmless dbs) (fst (Close_loop w t conns))"
  by (induction conns arbitrary: t) (simp_all add: case_prod_unfold)

lemma Query_loop_harmless: "list_all (harmless dbs) (fst (Query_loop w t query args conns))"
  by (induction conns arbitrary: t) (simp_all add: case_prod_unfold)

lemma Exec_loop_harmless:
  assumes "db \<in> set dbs"
  shows "list_all (harmless dbs) (fst (Exec_loop w t (''USE '' @ Name db) args conns))"
  using assms by (induction conns arbitrary: t) (simp_all add: case_prod_unfold)

lemma QueryResults_Close_harmless: "list_all (harmless dbs) (QueryResults_Close conns r)"
  by (induction conns r rule: QueryResults_Close.induct) (auto split: option.splits)

lemma rows_loop_harmless:
  assumes "\<not> fix' sync"
  shows "list_all (harmless dbs) (fst (rows_loop sync name table l i rows))"
proof (induction rows)
  case Nil
  show ?case by simp
next
  case (Cons row rows)
  obtain c ty where row: "row = (c, ty)" by (cases row)
  show ?case
  proof (cases rule: row_cases [where table = table and c = c and ty = ty])
    case no_columns
    then show ?thesis by (simp add: rows_loop_no_columns)
  next
    case excess
    with Cons assms show ?thesis unfolding row
      by (simp add: rows_loop_excess del: rows_loop.simps)
  next
    case (panic needType)
    then show ?thesis unfolding row by (simp add: rows_loop_panic del: rows_loop.simps)
  next
    case (mismatch needType n rest)
    with Cons assms show ?thesis unfolding row
      by (simp add: rows_loop_mismatch del: rows_loop.simps WithFields.simps)
  next
    case (match needType rest)
    with Cons show ?thesis unfolding row
      by (simp add: rows_loop_match del: rows_loop.simps)
  qed
qed

lemma missing_loop_harmless:
  assumes "\<not> fix' sync"
  shows "list_all (harmless dbs) (missing_loop sync name l i ex cols)"
  using assms by (induction cols) auto

lemma check_replica_harmless:
  assumes "\<not> fix' sync"
  shows "list_all (harmless dbs) (fst (check_replica sync name table l i e))"
proof (cases rule: check_replica_shape [where sync = sync and name = name and table = table
      and l = l and i = i and e = e])
  case (panic p)
  then show ?thesis using rows_loop_harmless [OF assms] by simp
next
  case absent
  then show ?thesis using assms by simp
next
  case present
  then show ?thesis
    using rows_loop_harmless [OF assms] missing_loop_harmless [OF assms] by simp
qed

lemma replicas_loop_harmless:
  assumes "\<not> fix' sync"
  shows "list_all (harmless dbs) (fst (replicas_loop sync name table l i r))"
proof (induction r arbitrary: l i)
  case Nil
  show ?case by simp
next
  case (Cons e r)
  show ?case
    using check_replica_harmless [OF assms, of dbs name table
        "WithField ''host'' (Host (Servers (config sync) ! i)) l" i e]
      Cons [of "WithField ''host'' (Host (Servers (config sync) ! i)) l" "i + 1"]
    by (auto simp: Let_def split: prod.splits option.splits)
qed

lemma check_results_harmless:
  assumes "\<not> fix' sync"
  shows "list_all (harmless dbs) (fst (check_results sync name table r))"
  using replicas_loop_harmless [OF assms, of dbs name table
      "WithFields [(''database'', database sync), (''table'', name)] []" 0 r]
    QueryResults_Close_harmless [of dbs "connections sync" r]
  by (auto simp: check_results_def Let_def split: sum.splits prod.splits simp del: WithFields.simps)

lemma CheckTable_harmless:
  assumes "\<not> fix' sync"
  shows "list_all (harmless dbs) (fst (CheckTable w sync t name table))"
  using check_results_harmless [OF assms, of dbs name table]
    Query_loop_harmless [of dbs w t columns_query "[database sync, name]" "connections sync"]
  by (simp add: CheckTable_def Query_def case_prod_unfold)

lemma tables_loop_harmless:
  assumes "\<not> fix' sync"
  shows "list_all (harmless dbs) (fst (tables_loop w sync t tables))"
proof (induction tables arbitrary: t)
  case Nil
  show ?case by simp
next
  case (Cons entry tables)
  obtain name table where entry: "entry = (name, table)" by (cases entry)
  obtain evs p where ct: "CheckTable w sync t name table = (evs, p)"
    by (cases "CheckTable w sync t name table")
  have evs: "list_all (harmless dbs) evs"
    using CheckTable_harmless [OF assms, of dbs w t name table] ct by simp
  show ?case
    using evs ct Cons [of "t + length evs"]
    by (auto simp: entry split: prod.splits option.splits)
qed

lemma CheckDatabase_harmless:
  assumes "\<not> fix' sync" and "db \<in> set dbs"
  shows "list_all (harmless dbs) (fst (CheckDatabase w sync t db))
         \<and> fix' (fst (snd (CheckDatabase w sync t db))) = fix' sync"
proof -
  obtain evs r where ex: "Exec w sync t (''USE '' @ Name db) [] = (evs, r)"
    by (cases "Exec w sync t (''USE '' @ Name db) []")
  have evs: "list_all (harmless dbs) evs"
    using Exec_loop_harmless [OF assms(2), of w t "[]" "connections sync"] ex
    by (simp add: Exec_def)
  have "\<not> fix' (sync\<lparr>database := Name db\<rparr>)" using assms(1) by simp
  from tables_loop_harmless [OF this, of dbs w "t + length evs" "Tables db"]
  show ?thesis
    using evs ex by (auto simp: CheckDatabase_def Let_def split: prod.splits)
qed

lemma Check_loop_harmless:
  assumes "\<not> fix' sync" and "set dbs' \<subseteq> set dbs"
  shows "list_all (harmless dbs) (fst (Check_loop w sync t dbs'))"
  using assms
proof (induction dbs' arbitrary: sync t)
  case Nil
  show ?case by simp
next
  case (Cons db dbs')
  obtain evs sync' p where cd: "CheckDatabase w sync t db = (evs, sync', p)"
    by (cases "CheckDatabase w sync t db") auto
  from Cons.prems have "db \<in> set dbs" by simp
  from CheckDatabase_harmless [OF Cons.prems(1) this, of w t] cd
  have evs: "list_all (harmless dbs) evs" and nofix: "\<not> fix' sync'"
    using Cons.prems(1) by simp_all
  from Cons.prems have "set dbs' \<subseteq> set dbs" by simp
  from Cons.IH [OF nofix this, of "t + length evs"] evs cd
  show ?case by (auto split: prod.splits option.splits)
qed

lemma Check_harmless:
  assumes "\<not> fix' sync"
  shows "list_all (harmless (Databases (config sync))) (fst (Check w sync t))"
  using Check_loop_harmless [OF assms, of "Databases (config sync)" "Databases (config sync)" w t]
  by (simp add: Check_def)

lemma main_startup:
  "main w cfg f d g =
     (case Connect w (startup cfg f d g) 0 of
        (evs, synchronizer, Some err) \<Rightarrow> (evs, Some (PanicError err))
      | (evs, synchronizer, None) \<Rightarrow>
          (case Check w synchronizer (length evs) of
             (evs', synchronizer, Some p) \<Rightarrow> (evs @ evs', Some p)
           | (evs', synchronizer, None) \<Rightarrow>
               (case Close w synchronizer (length evs + length evs') of
                  (evs'', Some err) \<Rightarrow> (evs @ evs' @ evs'', Some (PanicError err))
                | (evs'', None) \<Rightarrow> (evs @ evs' @ evs'', None))))"
  by (simp add: main_def startup_def Let_def)

lemma Connect_fields:
  "config (fst (snd (Connect w sync t))) = config sync
   \<and> fix' (fst (snd (Connect w sync t))) = fix' sync
   \<and> list_all (harmless dbs) (fst (Connect w sync t))"
  using Connect_loop_harmless [of dbs w sync t "Servers (config sync)"]
  by (simp add: Connect_def case_prod_unfold)

lemma startup_fields:
  "config (startup cfg f d g) = cfg" "fix' (startup cfg f d g) = f"
  by (simp_all add: startup_def SetupLogger_def SetDropColumns_def SetFix_def NewSynchronizer_def)

lemma main_harmless: "list_all (harmless (Databases cfg)) (fst (main w cfg False d g))"
proof -
  let ?s = "startup cfg False d g"
  obtain evs s err where co: "Connect w ?s 0 = (evs, s, err)"
    by (cases "Connect w ?s 0") auto
  from Connect_fields [of w ?s 0 "Databases cfg"] co
  have s: "config s = cfg" "\<not> fix' s" and evs: "list_all (harmless (Databases cfg)) evs"
    by (simp_all add: startup_fields)
  obtain evs' s' p where ch: "Check w s (length evs) = (evs', s', p)"
    by (cases "Check w s (length evs)") auto
  from Check_harmless [OF s(2), of w "length evs"] ch s(1)
  have evs': "list_all (harmless (Databases cfg)) evs'" by simp
  obtain evs'' err' where cl: "Close w s' (length evs + length evs') = (evs'', err')"
    by (cases "Close w s' (length evs + length evs')")
  have evs'': "list_all (harmless (Databases cfg)) evs''"
    using Close_loop_harmless [of "Databases cfg" w "length evs + length evs'" "connections s'"] cl
    by (auto simp: Close_def split: prod.splits)
  show ?thesis
    using co ch cl evs evs' evs''
    by (auto simp: main_startup split: option.splits)
qed

text \<open>
  Claim C4. If \<open>applyFixes\<close> is false, a run starts no corrective call at all,
  whatever the configuration, the answers of the replicas and the value of
  \<open>allowColumnDrop\<close>; the only statements the run itself issues select a configured
  database. The same holds of \<open>Check\<close> from any synchronizer whose \<open>fix\<close> is
  false.
\<close>

theorem C4_no_fix_no_corrective_statement:
  "spawned (fst (main w cfg False dropColumns_flag debug_flag)) = []
   \<and> set (statements (fst (main w cfg False dropColumns_flag debug_flag)))
       \<subseteq> (\<lambda>db. ''USE '' @ Name db) ` set (Databases cfg)
   \<and> (\<not> fix' sync \<longrightarrow>
        spawned (fst (Check w sync t)) = []
        \<and> set (statements (fst (Check w sync t)))
            \<subseteq> (\<lambda>db. ''USE '' @ Name db) ` set (Databases (config sync)))"
  using harmless_events [OF main_harmless [where cfg = cfg and w = w and d = dropColumns_flag
        and g = debug_flag]]
    harmless_events [OF Check_harmless [where sync = sync and w = w and t = t]]
  by blast

theorem C4_no_fix_no_corrective_statement_witness:
  "spawned (fst (main (example_world [(''b'', ''String'')]) example_config False True False)) = []
   \<and> set (statements (fst (main (example_world [(''b'', ''String'')]) example_config False True
         False))) \<subseteq> (\<lambda>db. ''USE '' @ Name db) ` set (Databases example_config)
   \<and> \<not> fix' (example_sync\<lparr>fix' := False\<rparr>)
   \<and> spawned (fst (Check (example_world [(''b'', ''String'')]) (example_sync\<lparr>fix' := False\<rparr>) 0))
       = []"
proof -
  have h: "\<not> fix' (example_sync\<lparr>fix' := False\<rparr>)" by simp
  from h C4_no_fix_no_corrective_statement [where w = "example_world [(''b'', ''String'')]"
      and cfg = example_config and dropColumns_flag = True and debug_flag = False
      and sync = "example_sync\<lparr>fix' := False\<rparr>" and t = 0]
  show ?thesis by blast
qed

section \<open>Connect\<close>

lemma Connect_loop_opened:
  "List.map_filter opened_dsn (fst (Connect_loop w sync t servers)) = map (dsn_of sync) servers"
  by (induction servers arbitrary: t)
    (simp_all add: Let_def case_prod_unfold map_filter_simps split: sum.splits option.splits)

lemma Connect_loop_pinged:
  "List.map_filter pinged (fst (Connect_loop w sync t servers))
     = List.map_filter opened (fst (Connect_loop w sync t servers))"
  by (induction servers arbitrary: t)
    (simp_all add: Let_def case_prod_unfold map_filter_simps split: sum.splits option.splits)

lemma Connect_loop_conns:
  "snd (snd (Connect_loop w sync t servers))
     = List.map_filter pinged_ok (fst (Connect_loop w sync t servers))"
  by (induction servers arbitrary: t)
    (simp_all add: Let_def case_prod_unfold map_filter_simps split: sum.splits option.splits)

lemma Connect_loop_errs:
  "fst (snd (Connect_loop w sync t servers))
     = List.map_filter failure (fst (Connect_loop w sync t servers))"
  by (induction servers arbitrary: t)
    (simp_all add: Let_def case_prod_unfold map_filter_simps split: sum.splits option.splits)

lemma Connect_loop_length:
  "length (snd (snd (Connect_loop w sync t servers)))
     + length (fst (snd (Connect_loop w sync t servers))) = length servers"
  by (induction servers arbitrary: t)
    (simp_all add: Let_def case_prod_unfold split: sum.splits option.splits)

lemma main_aborts_on_connect_error:
  assumes "snd (snd (Connect w (startup cfg f d g) 0)) = Some err"
  shows "main w cfg f d g = (fst (Connect w (startup cfg f d g) 0), Some (PanicError err))"
  using assms by (cases "Connect w (startup cfg f d g) 0") (simp add: main_startup)

text \<open>
  Claim C6, as amended. \<open>Connect\<close> opens every endpoint, in order, and pings
  exactly the connections it opened; the pool holds exactly the connections whose ping
  succeeded, in endpoint order; every endpoint gives either a connection of the pool or
  one failure; the error is nil when nothing failed, and otherwise its message is the
  failure texts in endpoint order, each followed by a newline, so that the message ends
  with a newline. When \<open>Connect\<close> returns an error, \<open>main\<close> panics with it after
  the events of \<open>Connect\<close>: nothing else is run. The data source name opened for a
  server is \<open>tcp://host:port?username=user&password=pass&debug=0\<close>.
\<close>

theorem C6_connect_pool_and_combined_error:
  "(case Connect w sync t of
      (evs, sync', err) \<Rightarrow>
         List.map_filter opened_dsn evs = map (dsn_of sync) (Servers (config sync))
         \<and> List.map_filter pinged evs = List.map_filter opened evs
         \<and> connections sync' = List.map_filter pinged_ok evs
         \<and> length (connections sync') + length (List.map_filter failure evs)
             = length (Servers (config sync))
         \<and> err = (if List.map_filter failure evs = [] then None
                   else Some (concat (map (\<lambda>text. text @ newline) (List.map_filter failure evs)))))
   \<and> (\<forall>err. snd (snd (Connect w (startup cfg f d g) 0)) = Some err \<longrightarrow>
         main w cfg f d g = (fst (Connect w (startup cfg f d g) 0), Some (PanicError err)))
   \<and> dsn_of sync server
       = ''tcp://'' @ Host server @ '':'' @ itoa (unat (Port server)) @ ''?username=''
           @ User server @ ''&password='' @ Pass server @ ''&debug=0''"
proof -
  let ?r = "Connect_loop w sync t (Servers (config sync))"
  have "Connect w sync t = (fst ?r, sync\<lparr>connections := snd (snd ?r)\<rparr>, errors_text (fst (snd ?r)))"
    by (simp add: Connect_def case_prod_unfold)
  moreover have "List.map_filter opened_dsn (fst ?r) = map (dsn_of sync) (Servers (config sync))"
    by (rule Connect_loop_opened)
  moreover have "List.map_filter pinged (fst ?r) = List.map_filter opened (fst ?r)"
    by (rule Connect_loop_pinged)
  moreover have "snd (snd ?r) = List.map_filter pinged_ok (fst ?r)"
    by (rule Connect_loop_conns)
  moreover have "fst (snd ?r) = List.map_filter failure (fst ?r)"
    by (rule Connect_loop_errs)
  moreover have "length (snd (snd ?r)) + length (fst (snd ?r)) = length (Servers (config sync))"
    by (rule Connect_loop_length)
  ultimately have first: "(case Connect w sync t of
      (evs, sync', err) \<Rightarrow>
         List.map_filter opened_dsn evs = map (dsn_of sync) (Servers (config sync))
         \<and> List.map_filter pinged evs = List.map_filter opened evs
         \<and> connections sync' = List.map_filter pinged_ok evs
         \<and> length (connections sync') + length (List.map_filter failure evs)
             = length (Servers (config sync))
         \<and> err = (if List.map_filter failure evs = [] then None
                   else Some (concat (map (\<lambda>text. text @ newline) (List.map_filter failure evs)))))"
    by (simp add: errors_text_def)
  have dsn: "dsn_of sync server
       = ''tcp://'' @ Host server @ '':'' @ itoa (unat (Port server)) @ ''?username=''
           @ User server @ ''&password='' @ Pass server @ ''&debug=0''"
    by (simp add: dsn_of_def itoa.simps digit_def)
  show ?thesis
    using first main_aborts_on_connect_error [of w cfg f d g] dsn by blast
qed

theorem C6_connect_pool_and_combined_error_witness:
  "connections (fst (snd (Connect one_alive (startup three_servers True False False) 0))) = [DB 0]
   \<and> snd (snd (Connect one_alive (startup three_servers True False False) 0))
       = Some (''timeout'' @ newline @ ''timeout'' @ newline)
   \<and> main one_alive three_servers True False False
       = (fst (Connect one_alive (startup three_servers True False False) 0),
          Some (PanicError (''timeout'' @ newline @ ''timeout'' @ newline)))"
proof -
  have c: "connections (fst (snd (Connect one_alive (startup three_servers True False False) 0)))
      = [DB 0]"
    by (simp add: Connect_def startup_def three_servers_def one_alive_def SetupLogger_def
        SetDropColumns_def SetFix_def NewSynchronizer_def Let_def)
  have e: "snd (snd (Connect one_alive (startup three_servers True False False) 0))
       = Some (''timeout'' @ newline @ ''timeout'' @ newline)"
    by (simp add: Connect_def startup_def three_servers_def one_alive_def SetupLogger_def
        SetDropColumns_def SetFix_def NewSynchronizer_def Let_def errors_text_def)
  have "\<forall>err. snd (snd (Connect one_alive (startup three_servers True False False) 0)) = Some err
          \<longrightarrow> main one_alive three_servers True False False
              = (fst (Connect one_alive (startup three_servers True False False) 0),
                 Some (PanicError err))"
    using C6_connect_pool_and_combined_error [where w = one_alive and cfg = three_servers
      and f = True and d = False and g = False, THEN conjunct2, THEN conjunct1] .
  with e have "main one_alive three_servers True False False
       = (fst (Connect one_alive (startup three_servers True False False) 0),
          Some (PanicError (''timeout'' @ newline @ ''timeout'' @ newline)))"
    by (rule_tac mp, rule_tac spec) 
  with c e show ?thesis by (intro conjI)
qed

text \<open>
  The claim as stated fails: the message is not the failure texts joined by newlines,
  since a newline follows the last text too. With two failed pings the message is
  \<open>timeout\<close>, newline, \<open>timeout\<close>, newline.
\<close>

theorem C6_joined_by_newlines_counterexample:
  "List.map_filter failure (fst (Connect one_alive (startup three_servers True False False) 0))
     = [''timeout'', ''timeout'']
   \<and> snd (snd (Connect one_alive (startup three_servers True False False) 0))
       = Some (''timeout'' @ newline @ ''timeout'' @ newline)
   \<and> snd (snd (Connect one_alive (startup three_servers True False False) 0))
       \<noteq> Some (Join [''timeout'', ''timeout''] newline)"
  by (simp add: Connect_def startup_def three_servers_def one_alive_def SetupLogger_def
      SetDropColumns_def SetFix_def NewSynchronizer_def Let_def errors_text_def newline_def
      map_filter_simps)

section \<open>A panic ends the run\<close>

lemma Query_loop_results:
  "length (snd (Query_loop w t query args conns)) = length conns
   \<and> (\<forall>e \<in> set (snd (Query_loop w t query args conns)).
         \<exists>t' conn. e = db_Query w t' conn query args)"
proof (induction conns arbitrary: t)
  case Nil
  show ?case by simp
next
  case (Cons conn conns)
  from Cons [of "t + 1"] show ?case
    by (auto simp: case_prod_unfold)
qed

lemma CheckTable_panics:
  assumes "connections sync \<noteq> []" and "map_of (Columns table) c = Some needType"
    and "Fields needType = []"
    and "\<forall>t conn. \<exists>ty. (c, ty) \<in> set (live (db_Query w t conn columns_query [database sync, name]))"
  shows "snd (CheckTable w sync t name table) \<noteq> None"
proof -
  let ?r = "snd (Query w sync t columns_query [database sync, name])"
  from Query_loop_results [of w t columns_query "[database sync, name]" "connections sync"]
  have len: "length ?r = length (connections sync)"
    and each: "\<forall>e \<in> set ?r. \<exists>t' conn. e = db_Query w t' conn columns_query [database sync, name]"
    by (simp_all add: Query_def)
  from len assms(1) obtain e where e: "e \<in> set ?r" by (cases ?r) auto
  with each obtain t' conn where "e = db_Query w t' conn columns_query [database sync, name]"
    by auto
  moreover from assms(4)
  obtain ty where "(c, ty) \<in> set (live (db_Query w t' conn columns_query [database sync, name]))"
    by auto
  ultimately have "(c, ty) \<in> set (live e)" by simp
  then have "\<And>l i. snd (check_replica sync name table l i e) \<noteq> None"
    using check_replica_bad_row [OF _ assms(2,3)] by simp
  with e have "snd (check_results sync name table ?r) \<noteq> None"
    by (rule check_results_panics)
  then show ?thesis by (simp add: CheckTable_def case_prod_unfold)
qed

lemma tables_loop_panics:
  assumes "(name, table) \<in> set tables" and "connections sync \<noteq> []"
    and "map_of (Columns table) c = Some needType" and "Fields needType = []"
    and "\<forall>t conn. \<exists>ty. (c, ty) \<in> set (live (db_Query w t conn columns_query [database sync, name]))"
  shows "snd (tables_loop w sync t tables) \<noteq> None"
  using assms(1)
proof (induction tables arbitrary: t)
  case Nil
  then show ?case by simp
next
  case (Cons entry tables)
  obtain name' table' where entry: "entry = (name', table')" by (cases entry)
  obtain evs p where ct: "CheckTable w sync t name' table' = (evs, p)"
    by (cases "CheckTable w sync t name' table'")
  show ?case
  proof (cases p)
    case (Some q)
    with ct show ?thesis by (simp add: entry)
  next
    case None
    have "entry \<noteq> (name, table)"
    proof
      assume "entry = (name, table)"
      with entry ct None CheckTable_panics [OF assms(2-5), of t] show False by simp
    qed
    with Cons.prems have "(name, table) \<in> set tables" by simp
    from Cons.IH [OF this, of "t + length evs"] ct None show ?thesis
      by (simp add: entry case_prod_unfold)
  qed
qed

lemma CheckDatabase_panics:
  assumes "(name, table) \<in> set (Tables db)" and "connections sync \<noteq> []"
    and "map_of (Columns table) c = Some needType" and "Fields needType = []"
    and "\<forall>t conn. \<exists>ty. (c, ty) \<in> set (live (db_Query w t conn columns_query [Name db, name]))"
  shows "snd (snd (CheckDatabase w sync t db)) \<noteq> None"
proof -
  let ?sync = "sync\<lparr>database := Name db\<rparr>"
  have "snd (tables_loop w ?sync t' (Tables db)) \<noteq> None" for t'
    using tables_loop_panics [OF assms(1), of ?sync c needType w t'] assms(2-5) by simp
  then show ?thesis
    by (simp add: CheckDatabase_def Let_def case_prod_unfold)
qed

lemma CheckDatabase_connections:
  "connections (fst (snd (CheckDatabase w sync t db))) = connections sync"
  by (simp add: CheckDatabase_def Let_def case_prod_unfold)

lemma Check_loop_panics:
  assumes "db \<in> set dbs" and "(name, table) \<in> set (Tables db)" and "connections sync \<noteq> []"
    and "map_of (Columns table) c = Some needType" and "Fields needType = []"
    and "\<forall>t conn. \<exists>ty. (c, ty) \<in> set (live (db_Query w t conn columns_query [Name db, name]))"
  shows "snd (snd (Check_loop w sync t dbs)) \<noteq> None"
  using assms(1,3)
proof (induction dbs arbitrary: sync t)
  case Nil
  then show ?case by simp
next
  case (Cons db' dbs)
  obtain evs sync' p where cd: "CheckDatabase w sync t db' = (evs, sync', p)"
    by (cases "CheckDatabase w sync t db'") auto
  show ?case
  proof (cases p)
    case (Some q)
    with cd show ?thesis by simp
  next
    case None
    have "db' \<noteq> db"
    proof
      assume "db' = db"
      with cd None CheckDatabase_panics [OF assms(2) Cons.prems(2) assms(4-6), of t]
      show False by simp
    qed
    with Cons.prems have db: "db \<in> set dbs" by simp
    have "connections sync' \<noteq> []"
      using CheckDatabase_connections [of w sync t db'] cd Cons.prems(2) by simp
    from Cons.IH [OF db this, of "t + length evs"] cd None show ?thesis
      by (simp add: case_prod_unfold)
  qed
qed

lemma errors_text_None: "errors_text errs = None \<longleftrightarrow> errs = []"
  by (simp add: errors_text_def)

lemma main_panics:
  assumes "Servers cfg \<noteq> []" and "db \<in> set (Databases cfg)" and "(name, table) \<in> set (Tables db)"
    and "map_of (Columns table) c = Some needType" and "Fields needType = []"
    and "\<forall>t conn. \<exists>ty. (c, ty) \<in> set (live (db_Query w t conn columns_query [Name db, name]))"
  shows "snd (main w cfg f d g) \<noteq> None"
proof -
  let ?s = "startup cfg f d g"
  let ?r = "Connect_loop w ?s 0 (Servers cfg)"
  have co: "Connect w ?s 0 = (fst ?r, ?s\<lparr>connections := snd (snd ?r)\<rparr>, errors_text (fst (snd ?r)))"
    by (simp add: Connect_def case_prod_unfold startup_fields)
  show ?thesis
  proof (cases "errors_text (fst (snd ?r))")
    case (Some err)
    with co show ?thesis by (simp add: main_startup)
  next
    case None
    then have "fst (snd ?r) = []" by (simp add: errors_text_None)
    with Connect_loop_length [of w ?s 0 "Servers cfg"] assms(1)
    have conns: "connections (?s\<lparr>connections := snd (snd ?r)\<rparr>) \<noteq> []" by auto
    have cfg: "Databases (config (?s\<lparr>connections := snd (snd ?r)\<rparr>)) = Databases cfg"
      by (simp add: startup_fields)
    from Check_loop_panics [OF assms(2,3) conns assms(4-6), of "length (fst ?r)"]
    obtain evs' s' q where "Check w (?s\<lparr>connections := snd (snd ?r)\<rparr>) (length (fst ?r)) = (evs', s', Some q)"
      unfolding Check_def cfg
      by (cases "Check_loop w (?s\<lparr>connections := snd (snd ?r)\<rparr>) (length (fst ?r)) (Databases cfg)")
        auto
    with co None show ?thesis by (simp add: main_startup)
  qed
qed

text \<open>
  Claim C10. If a live column is present in the desired column mapping and its desired
  type is empty or consists only of white space, the check of the replica panics with
  an index out of range, and no divergence naming that column is reported; the check of
  the table panics when such a result is among those of its replicas; and a run whose
  catalog reports such a column for a configured table ends in a panic.
\<close>

theorem C10_blank_type_panics:
  assumes "map_of (Columns table) c = Some needType" and "only_white_space needType"
  shows "((c, ty) \<in> set (live e) \<longrightarrow>
            snd (check_replica sync name table l i e) = Some (IndexOutOfRange 0 0)
            \<and> c \<notin> divergence_column ` set (divergences (fst (check_replica sync name table l i e)))
            \<and> (e \<in> set r \<longrightarrow> snd (check_results sync name table r) \<noteq> None))
         \<and> (Servers cfg \<noteq> [] \<and> db \<in> set (Databases cfg) \<and> (name, table) \<in> set (Tables db)
              \<and> (\<forall>t conn. \<exists>ty. (c, ty) \<in> set (live (db_Query w t conn columns_query [Name db, name])))
            \<longrightarrow> snd (main w cfg f d g) \<noteq> None)"
proof -
  from assms(2) have nofield: "Fields needType = []" by (rule only_white_space_Fields)
  have replica: "snd (check_replica sync name table l i e) = Some (IndexOutOfRange 0 0)
      \<and> c \<notin> divergence_column ` set (divergences (fst (check_replica sync name table l i e)))"
    if "(c, ty) \<in> set (live e)" for l i
    using check_replica_bad_row [OF that assms(1) nofield] .
  have results: "snd (check_results sync name table r) \<noteq> None"
    if "(c, ty) \<in> set (live e)" "e \<in> set r"
  proof (rule check_results_panics [OF that(2)])
    fix l' i'
    show "snd (check_replica sync name table l' i' e) \<noteq> None"
      using check_replica_bad_row [OF that(1) assms(1) nofield, of sync name l' i'] by simp
  qed
  have run: "snd (main w cfg f d g) \<noteq> None"
    if "Servers cfg \<noteq> []" "db \<in> set (Databases cfg)" "(name, table) \<in> set (Tables db)"
      "\<forall>t conn. \<exists>ty. (c, ty) \<in> set (live (db_Query w t conn columns_query [Name db, name]))"
    using main_panics [OF that(1-3) assms(1) nofield that(4)] .
  show ?thesis using replica results run by blast
qed

theorem C10_blank_type_panics_witness:
  "map_of (Columns blank_table) ''a'' = Some ''  '' \<and> only_white_space ''  ''
   \<and> (''a'', ''UInt8'') \<in> set (live (rows_result [(''a'', ''UInt8'')]))
   \<and> rows_result [(''a'', ''UInt8'')] \<in> set [rows_result [(''a'', ''UInt8'')]]
   \<and> snd (check_replica example_sync ''t'' blank_table [] 0 (rows_result [(''a'', ''UInt8'')]))
       = Some (IndexOutOfRange 0 0)
   \<and> snd (check_results example_sync ''t'' blank_table [rows_result [(''a'', ''UInt8'')]]) \<noteq> None
   \<and> (Servers blank_config \<noteq> []
       \<and> \<lparr>Name = ''db'', Tables = [(''t'', blank_table)]\<rparr> \<in> set (Databases blank_config)
       \<and> (''t'', blank_table) \<in> set (Tables \<lparr>Name = ''db'', Tables = [(''t'', blank_table)]\<rparr>))
   \<and> snd (main (example_world [(''a'', ''UInt8'')]) blank_config True False False) \<noteq> None"
proof -
  have h1: "map_of (Columns blank_table) ''a'' = Some ''  ''"
    by (simp add: blank_table_def)
  have h2: "only_white_space ''  ''"
    by (simp add: only_white_space_def IsSpace_def)
  have h3: "(''a'', ''UInt8'') \<in> set (live (rows_result [(''a'', ''UInt8'')]))"
    by (simp add: live_def rows_result_def)
  have h4: "rows_result [(''a'', ''UInt8'')] \<in> set [rows_result [(''a'', ''UInt8'')]]"
    by simp
  have h5: "Servers blank_config \<noteq> []
       \<and> \<lparr>Name = ''db'', Tables = [(''t'', blank_table)]\<rparr> \<in> set (Databases blank_config)
       \<and> (''t'', blank_table) \<in> set (Tables \<lparr>Name = ''db'', Tables = [(''t'', blank_table)]\<rparr>)"
    by (simp add: blank_config_def)
  have h6: "\<forall>t conn. \<exists>ty. (''a'', ty) \<in> set (live (db_Query (example_world [(''a'', ''UInt8'')]) t
      conn columns_query [Name \<lparr>Name = ''db'', Tables = [(''t'', blank_table)]\<rparr>, ''t'']))"
    by (simp add: example_world_def live_def rows_result_def)
  note inst = C10_blank_type_panics [OF h1 h2, where ty = "''UInt8''"
      and e = "rows_result [(''a'', ''UInt8'')]" and sync = example_sync and name = "''t''"
      and l = "[]" and i = 0 and r = "[rows_result [(''a'', ''UInt8'')]]" and cfg = blank_config
      and db = "\<lparr>Name = ''db'', Tables = [(''t'', blank_table)]\<rparr>"
      and w = "example_world [(''a'', ''UInt8'')]" and f = True and d = False and g = False]
  from inst h3 h4 have a: "snd (check_replica example_sync ''t'' blank_table [] 0
      (rows_result [(''a'', ''UInt8'')])) = Some (IndexOutOfRange 0 0)"
    and b: "snd (check_results example_sync ''t'' blank_table [rows_result [(''a'', ''UInt8'')]])
      \<noteq> None"
    by blast+
  from inst h5 h6 have c: "snd (main (example_world [(''a'', ''UInt8'')]) blank_config True False
      False) \<noteq> None"
    by blast
  show ?thesis using h1 h2 h3 h4 h5 a b c by (intro conjI) blast+
qed

end
